theory Spec2Isabelle
  imports Main "HOL-Library.AList" "HOL-Library.Sublist"
begin


section \<open>Data model of terminalCompletionService.ts\<close>

text \<open>
  JavaScript strings are modelled as \<^typ>\<open>string\<close>, numbers that index into the prompt
  as \<^typ>\<open>int\<close>, an optional member \<open>x?: T\<close> as \<open>T option\<close> (\<open>None\<close> is
  \<open>undefined\<close>), and a \<open>Map\<close> as an association list in insertion order with
  distinct keys: \<open>Map.get\<close> is \<^const>\<open>map_of\<close>, \<open>Map.set\<close> is
  \<^const>\<open>AList.update\<close> (an existing key keeps its position, a new key goes to the
  end) and \<open>Map.delete\<close> is \<^const>\<open>AList.delete\<close>.
\<close>

datatype TerminalCompletionItemKind = File | Folder | Flag | Method | Argument

text \<open>\<open>ITerminalCompletion\<close>: the members of \<open>ISimpleCompletion\<close> that this file reads or
  writes, and \<open>kind\<close>.\<close>

record ITerminalCompletion =
  label :: string
  detail :: "string option"
  kind :: "TerminalCompletionItemKind option"
  isDirectory :: "bool option"
  isFile :: "bool option"
  replacementIndex :: int
  replacementLength :: int

text \<open>\<open>URI\<close>: its five components. The getter \<open>fsPath\<close> is computed from them by
  code outside this file and is a parameter of the model (see \<open>collaborators\<close>).\<close>

record URI =
  scheme :: string
  authority :: string
  path :: string
  query :: string
  fragment :: string

record TerminalResourceRequestConfig =
  filesRequested :: "bool option"
  foldersRequested :: "bool option"
  cwd :: "URI option"
  pathSeparator :: string

record TerminalCompletionList =
  items :: "ITerminalCompletion list option"
  resourceRequestConfig :: "TerminalResourceRequestConfig option"

text \<open>What awaiting \<open>provider.provideCompletions(...)\<close> gives: an exception or a rejected
  promise, \<open>undefined\<close>, a bare array, or a \<open>TerminalCompletionList\<close>.\<close>

datatype completions =
  Throws
  | Undefined
  | Array "ITerminalCompletion list"
  | CompletionList TerminalCompletionList

text \<open>\<open>TerminalShellType\<close> and \<open>CancellationToken\<close> are declared outside this file.
  The service compares shell types for equality and hands the token to the providers, no
  more: a shell type is modelled by its name, a token by its cancellation flag.\<close>

type_synonym TerminalShellType = string
type_synonym CancellationToken = bool

text \<open>\<open>ITerminalCompletionProvider\<close>. The member \<open>id\<close> is called \<open>providerId\<close> here,
  since \<open>id\<close> is the identity function of HOL.\<close>

record ITerminalCompletionProvider =
  providerId :: string
  shellTypes :: "TerminalShellType list option"
  provideCompletions_p :: "string \<Rightarrow> int \<Rightarrow> CancellationToken \<Rightarrow> completions"
  triggerCharacters :: "string list option"
  isBuiltin :: "bool option"

section \<open>The provider registry\<close>

text \<open>\<open>_providers\<close>: extension id to (provider id to provider).\<close>

type_synonym providerMap = "(string \<times> ITerminalCompletionProvider) list"
type_synonym registry = "(string \<times> providerMap) list"

text \<open>The generator \<open>_providersGenerator\<close>: every provider of every inner map, in
  insertion order.\<close>

definition providers :: "registry \<Rightarrow> ITerminalCompletionProvider list" where
  "providers reg = concat (map (\<lambda>(ext, providerMap). map snd providerMap) reg)"

text \<open>\<open>registerTerminalCompletionProvider\<close>, the registry after the call. The inner map is
  created and stored when the extension has none, the provider is stamped with the
  trigger characters and the id, and stored in the inner map under the id.

  Providers are held by value: the entry is the provider as stamped by this call. (The
  source stamps the object it is given, so one object registered under two keys would show
  the later stamp under both; the statements below are about the keys of the two maps and
  about providers registered once.)\<close>

definition registerTerminalCompletionProvider ::
  "string \<Rightarrow> string \<Rightarrow> ITerminalCompletionProvider \<Rightarrow> string list \<Rightarrow> registry \<Rightarrow> registry" where
  "registerTerminalCompletionProvider extensionIdentifier i provider trigs reg =
     (let (extMap, reg1) =
            (case map_of reg extensionIdentifier of
               None \<Rightarrow> ([], AList.update extensionIdentifier [] reg)
             | Some m \<Rightarrow> (m, reg));
          provider1 = provider\<lparr>triggerCharacters := Some trigs\<rparr>;
          provider2 = provider1\<lparr>providerId := i\<rparr>
      in AList.update extensionIdentifier (AList.update i provider2 extMap) reg1)"

text \<open>The function handed to \<open>toDisposable\<close>, which is what invoking the returned
  handle runs: it captures \<open>extensionIdentifier\<close> and \<open>id\<close>, not the provider.\<close>

definition dispose :: "string \<Rightarrow> string \<Rightarrow> registry \<Rightarrow> registry" where
  "dispose extensionIdentifier i reg =
     (case map_of reg extensionIdentifier of
        None \<Rightarrow> reg
      | Some extMap \<Rightarrow>
          (let extMap1 = AList.delete i extMap
           in if length extMap1 = 0 then AList.delete extensionIdentifier reg
              else AList.update extensionIdentifier extMap1 reg))"

text \<open>The registries a service can hold: it starts with an empty map, and only
  registrations and disposals change it.\<close>

datatype registryOp =
  Register string string ITerminalCompletionProvider "string list"
  | Dispose string string

fun applyOp :: "registry \<Rightarrow> registryOp \<Rightarrow> registry" where
  "applyOp reg (Register ext i p trigs) = registerTerminalCompletionProvider ext i p trigs reg"
| "applyOp reg (Dispose ext i) = dispose ext i reg"

definition registryAfter :: "registryOp list \<Rightarrow> registry" where
  "registryAfter ops = foldl applyOp [] ops"

text \<open>The entries of the registry with their composite keys, and the entry under one key.\<close>

definition entries :: "registry \<Rightarrow> ((string \<times> string) \<times> ITerminalCompletionProvider) list" where
  "entries reg = concat (map (\<lambda>(ext, providerMap). map (\<lambda>(i, p). ((ext, i), p)) providerMap) reg)"

definition lookup :: "registry \<Rightarrow> string \<Rightarrow> string \<Rightarrow> ITerminalCompletionProvider option" where
  "lookup reg ext i = (case map_of reg ext of None \<Rightarrow> None | Some m \<Rightarrow> map_of m i)"

text \<open>The shape every JavaScript \<open>Map\<close> has (distinct keys), and which the disposal keeps:
  no extension is left with an empty inner map.\<close>

definition wellFormed :: "registry \<Rightarrow> bool" where
  "wellFormed reg \<longleftrightarrow>
     distinct (map fst reg) \<and> list_all (\<lambda>(ext, m). distinct (map fst m) \<and> m \<noteq> []) reg"

section \<open>String operations of JavaScript used by the service\<close>

text \<open>\<open>s.substring(0, n)\<close>: a negative \<open>n\<close> counts as 0, one beyond the length as the
  length.\<close>

definition substring0 :: "string \<Rightarrow> int \<Rightarrow> string" where
  "substring0 s n = take (nat n) s"

definition endsWith :: "string \<Rightarrow> string \<Rightarrow> bool" where
  "endsWith s t \<longleftrightarrow> length t \<le> length s \<and> drop (length s - length t) s = t"

text \<open>\<open>s.includes(t)\<close>: \<open>t\<close> occurs in \<open>s\<close> at some position.\<close>

fun includes_str :: "string \<Rightarrow> string \<Rightarrow> bool" where
  "includes_str [] t = (t = [])"
| "includes_str (c # cs) t = (prefix t (c # cs) \<or> includes_str cs t)"

text \<open>\<open>s.split(sep)\<close>. With a non-empty separator the string is scanned from the left;
  at an occurrence of the separator the current segment is closed and the rest of the
  occurrence is skipped (\<open>skip\<close> counts the characters still to skip). With the empty
  separator the string is cut into its characters.\<close>

fun splitFrom :: "string \<Rightarrow> nat \<Rightarrow> string \<Rightarrow> string \<Rightarrow> string list" where
  "splitFrom sep skip cur [] = [cur]"
| "splitFrom sep skip cur (c # cs) =
     (if 0 < skip then splitFrom sep (skip - 1) cur cs
      else if prefix sep (c # cs) then cur # splitFrom sep (length sep - 1) [] cs
      else splitFrom sep 0 (cur @ [c]) cs)"

definition split :: "string \<Rightarrow> string \<Rightarrow> string list" where
  "split s sep = (if sep = [] then map (\<lambda>c. [c]) s else splitFrom sep 0 [] s)"

fun join :: "string \<Rightarrow> string list \<Rightarrow> string" where
  "join sep [] = []"
| "join sep [x] = x"
| "join sep (x # y # ys) = x @ sep @ join sep (y # ys)"

text \<open>\<open>s.replace(pat, '')\<close> with a string pattern: the first occurrence of \<open>pat\<close> is
  removed.\<close>

fun replaceFirst :: "string \<Rightarrow> string \<Rightarrow> string" where
  "replaceFirst pat [] = []"
| "replaceFirst pat (c # cs) =
     (if prefix pat (c # cs) then drop (length pat) (c # cs) else c # replaceFirst pat cs)"

section \<open>Collaborators\<close>

text \<open>\<open>IFileStat\<close>, as far as \<open>_resolveResources\<close> reads it.\<close>

datatype IFileStat =
  FileStat (resource: URI) (stat_isDirectory: bool) (stat_isFile: bool)
    (children: "IFileStat list option")

text \<open>The configuration service (the two settings read), the file service
  (\<open>resolve\<close> gives a stat or nothing) and the \<open>fsPath\<close> getter of \<open>URI\<close>: all three
  are declared outside this file and are parameters here.\<close>

record collaborators =
  enableExtensionCompletions :: bool
  devMode :: bool
  resolve :: "URI \<Rightarrow> IFileStat option"
  fsPath :: "URI \<Rightarrow> string"

text \<open>Modelled from the spec: \<open>URI.from\<close> is declared in \<open>base/common/uri.ts\<close>,
  outside this file. The parent directory is the parent path "under the same scheme":
  the location with the given scheme and path, its other components empty.\<close>

definition URI_from :: "string \<Rightarrow> string \<Rightarrow> URI" where
  "URI_from sch p = \<lparr>scheme = sch, authority = [], path = p, query = [], fragment = []\<rparr>"

text \<open>Modelled from the spec: \<open>Schemas.file\<close> is declared in
  \<open>base/common/network.ts\<close>, outside this file; it names the scheme of a "local-file-like
  source".\<close>

definition Schemas_file :: string where
  "Schemas_file = ''file''"

section \<open>The path resolver\<close>

definition orFalse :: "bool option \<Rightarrow> bool" where
  "orFalse b = (case b of None \<Rightarrow> False | Some v \<Rightarrow> v)"

text \<open>The kind of one child, as the two \<open>if\<close>s of the inner loop assign it.\<close>

definition childKind :: "bool \<Rightarrow> bool \<Rightarrow> IFileStat \<Rightarrow> TerminalCompletionItemKind option" where
  "childKind foldersReq filesReq stat =
     (let kind0 = None;
          kind1 = (if foldersReq \<and> stat_isDirectory stat then Some Folder else kind0);
          kind2 = (if filesReq \<and> \<not> stat_isDirectory stat
                      \<and> (stat_isFile stat \<or> scheme (resource stat) = Schemas_file)
                   then Some File else kind1)
      in kind2)"

text \<open>The inner loop over \<open>fileStat.children\<close>: the completions pushed for one directory.\<close>

fun childCompletions ::
  "collaborators \<Rightarrow> bool \<Rightarrow> bool \<Rightarrow> URI \<Rightarrow> int \<Rightarrow> string \<Rightarrow> string \<Rightarrow> IFileStat list
     \<Rightarrow> ITerminalCompletion list" where
  "childCompletions env foldersReq filesReq cwdU cursorPosition lastWord pfx [] = []"
| "childCompletions env foldersReq filesReq cwdU cursorPosition lastWord pfx (stat # stats) =
     (case childKind foldersReq filesReq stat of
        None \<Rightarrow> childCompletions env foldersReq filesReq cwdU cursorPosition lastWord pfx stats
      | Some k \<Rightarrow>
          (let lbl = pfx @ replaceFirst (fsPath env cwdU) (fsPath env (resource stat))
           in \<lparr>label = lbl, detail = None, kind = Some k,
               isDirectory = Some (k = Folder), isFile = Some (k = File),
               replacementIndex = cursorPosition - int (length lastWord),
               replacementLength = int (length lbl)\<rparr>
              # childCompletions env foldersReq filesReq cwdU cursorPosition lastWord pfx stats))"

text \<open>
  \<open>dirToPrefixMap\<close> is a \<open>Map<URI, string>\<close>: a JavaScript \<open>Map\<close> compares object keys
  by identity, not by their components. Its two keys are the objects \<open>cwd\<close> and
  \<open>parentCwd\<close>, and \<open>parentCwd\<close> is the object that the call of \<open>URI.from\<close> has just
  constructed. The model numbers the two objects 0 and 1 and keys the map by the number,
  keeping the location beside the prefix; \<open>Map.set\<close> is \<^const>\<open>AList.update\<close> on
  the numbers.
\<close>

definition dirToPrefixMap :: "URI \<Rightarrow> URI \<Rightarrow> (nat \<times> (URI \<times> string)) list" where
  "dirToPrefixMap cwdU parentCwd =
     AList.update 1 (parentCwd, ''..'') (AList.update 0 (cwdU, ''.'') [])"

text \<open>The outer loop over the map: it returns \<open>undefined\<close> from the whole function as soon
  as one directory has no stat or no children.\<close>

fun resolveDirs ::
  "collaborators \<Rightarrow> bool \<Rightarrow> bool \<Rightarrow> URI \<Rightarrow> int \<Rightarrow> string \<Rightarrow> (nat \<times> (URI \<times> string)) list
     \<Rightarrow> ITerminalCompletion list \<Rightarrow> ITerminalCompletion list option" where
  "resolveDirs env foldersReq filesReq cwdU cursorPosition lastWord [] resourceCompletions =
     Some resourceCompletions"
| "resolveDirs env foldersReq filesReq cwdU cursorPosition lastWord ((oid, (dir, pfx)) # rest)
       resourceCompletions =
     (case resolve env dir of
        None \<Rightarrow> None
      | Some fileStat \<Rightarrow>
          (case children fileStat of
             None \<Rightarrow> None
           | Some stats \<Rightarrow>
               resolveDirs env foldersReq filesReq cwdU cursorPosition lastWord rest
                 (resourceCompletions
                    @ childCompletions env foldersReq filesReq cwdU cursorPosition lastWord pfx stats)))"

definition resolveResources ::
  "collaborators \<Rightarrow> TerminalResourceRequestConfig \<Rightarrow> string \<Rightarrow> int
     \<Rightarrow> ITerminalCompletion list option" where
  "resolveResources env cfg promptValue cursorPosition =
     (case cwd cfg of
        None \<Rightarrow> None
      | Some cwdU \<Rightarrow>
          (let foldersReq = orFalse (foldersRequested cfg);
               filesReq = orFalse (filesRequested cfg)
           in if \<not> foldersReq \<and> \<not> filesReq then None
              else
                (let parentDirPath =
                       join (pathSeparator cfg) (butlast (split (fsPath env cwdU) (pathSeparator cfg)));
                     parentCwd = URI_from (scheme cwdU) parentDirPath;
                     lastWord =
                       (case split (substring0 promptValue cursorPosition) '' '' of
                          [] \<Rightarrow> [] | w # ws \<Rightarrow> last (w # ws))
                 in case resolveDirs env foldersReq filesReq cwdU cursorPosition lastWord
                           (dirToPrefixMap cwdU parentCwd) [] of
                      None \<Rightarrow> None
                    | Some resourceCompletions \<Rightarrow>
                        if length resourceCompletions \<noteq> 0 then Some resourceCompletions else None)))"

section \<open>The aggregation engine\<close>

datatype error = Rejected

text \<open>The callback of \<open>completionItems.map\<close>: the completion after it. The engine below
  works on the values of the completions; each invocation of a provider makes its
  completions afresh ("created fresh per request"), so no object is shared between two
  providers.\<close>

definition annotate :: "bool \<Rightarrow> string \<Rightarrow> ITerminalCompletion \<Rightarrow> ITerminalCompletion" where
  "annotate devModeEnabled pid completion =
     (if devModeEnabled \<and> \<not> (case detail completion of None \<Rightarrow> False | Some d \<Rightarrow> includes_str d pid)
      then completion\<lparr>detail :=
             Some (''('' @ pid @ '') '' @ (case detail completion of None \<Rightarrow> [] | Some d \<Rightarrow> d))\<rparr>
      else completion)"

text \<open>The same callback on the objects themselves: the provider's array holds references
  into a store of completions, and the callback updates the referenced object.\<close>

definition annotateInPlace ::
  "bool \<Rightarrow> string \<Rightarrow> nat list \<Rightarrow> (nat \<Rightarrow> ITerminalCompletion) \<Rightarrow> (nat \<Rightarrow> ITerminalCompletion)" where
  "annotateInPlace devModeEnabled pid refs store =
     foldl (\<lambda>st r. st(r := annotate devModeEnabled pid (st r))) store refs"

text \<open>The asynchronous callback of \<open>providers.map\<close> in \<open>_collectCompletions\<close>: what the
  promise of one provider settles to. \<open>Inl\<close> is a rejection, \<open>Inr None\<close> is
  \<open>undefined\<close>.\<close>

definition providerCompletions ::
  "collaborators \<Rightarrow> TerminalShellType \<Rightarrow> string \<Rightarrow> int \<Rightarrow> CancellationToken
     \<Rightarrow> ITerminalCompletionProvider \<Rightarrow> error + ITerminalCompletion list option" where
  "providerCompletions env shellType promptValue cursorPosition token provider =
     (if (case shellTypes provider of None \<Rightarrow> False | Some ts \<Rightarrow> shellType \<notin> set ts)
      then Inr None
      else
        (case provideCompletions_p provider promptValue cursorPosition token of
           Throws \<Rightarrow> Inl Rejected
         | Undefined \<Rightarrow> Inr None
         | Array completionItems \<Rightarrow>
             Inr (Some (map (annotate (devMode env) (providerId provider)) completionItems))
         | CompletionList completions \<Rightarrow>
             (let completionItems = (case items completions of None \<Rightarrow> [] | Some its \<Rightarrow> its);
                  itemsWithModifiedLabels =
                    map (annotate (devMode env) (providerId provider)) completionItems
              in case resourceRequestConfig completions of
                   Some cfg \<Rightarrow>
                     (case resolveResources env cfg promptValue cursorPosition of
                        Some resourceCompletions \<Rightarrow>
                          Inr (Some (itemsWithModifiedLabels @ resourceCompletions))
                      | None \<Rightarrow> Inr (Some itemsWithModifiedLabels))
                 | None \<Rightarrow> Inr None)))"

text \<open>\<open>Promise.all\<close>: rejected when one of the promises is, otherwise the values in the
  order of the promises.\<close>

fun promiseAll :: "(error + 'a) list \<Rightarrow> error + 'a list" where
  "promiseAll [] = Inr []"
| "promiseAll (r # rs) =
     (case r of
        Inl e \<Rightarrow> Inl e
      | Inr v \<Rightarrow> (case promiseAll rs of Inl e \<Rightarrow> Inl e | Inr vs \<Rightarrow> Inr (v # vs)))"

definition collectCompletions ::
  "collaborators \<Rightarrow> ITerminalCompletionProvider list \<Rightarrow> TerminalShellType \<Rightarrow> string \<Rightarrow> int
     \<Rightarrow> CancellationToken \<Rightarrow> error + ITerminalCompletion list option" where
  "collectCompletions env provs shellType promptValue cursorPosition token =
     (case promiseAll (map (providerCompletions env shellType promptValue cursorPosition token) provs) of
        Inl e \<Rightarrow> Inl e
      | Inr results \<Rightarrow> Inr (Some (concat (map the (filter (\<lambda>result. result \<noteq> None) results)))))"

section \<open>The trigger selector and the query\<close>

text \<open>The loop over \<open>provider.triggerCharacters\<close>: whether the provider is pushed.\<close>

fun charLoop :: "string \<Rightarrow> string list \<Rightarrow> bool" where
  "charLoop s [] = False"
| "charLoop s (char # chars) = (if endsWith s char then True else charLoop s chars)"

text \<open>The loop over \<open>this.providers\<close>, with \<open>providersToRequest\<close> as accumulator.\<close>

fun providerLoop ::
  "ITerminalCompletionProvider list \<Rightarrow> string \<Rightarrow> int \<Rightarrow> ITerminalCompletionProvider list
     \<Rightarrow> ITerminalCompletionProvider list" where
  "providerLoop [] promptValue cursorPosition providersToRequest = providersToRequest"
| "providerLoop (provider # rest) promptValue cursorPosition providersToRequest =
     (case triggerCharacters provider of
        None \<Rightarrow> providerLoop rest promptValue cursorPosition providersToRequest
      | Some chars \<Rightarrow>
          (if charLoop (substring0 promptValue cursorPosition) chars
           then providerLoop rest promptValue cursorPosition (providersToRequest @ [provider])
           else providerLoop rest promptValue cursorPosition providersToRequest))"

text \<open>The value of the variable \<open>providers\<close> before the policy filter.\<close>

definition candidates ::
  "registry \<Rightarrow> string \<Rightarrow> int \<Rightarrow> bool \<Rightarrow> ITerminalCompletionProvider list" where
  "candidates reg promptValue cursorPosition triggerCharacter =
     (if triggerCharacter then providerLoop (providers reg) promptValue cursorPosition []
      else concat (map (\<lambda>(ext, providerMap). map snd providerMap) reg))"

text \<open>\<open>provideCompletions\<close>. The guard on \<open>this._providers\<close> at its start never fires (the
  member is a \<open>Map\<close> from construction on), so the result is never \<open>undefined\<close>.\<close>

definition provideCompletions ::
  "collaborators \<Rightarrow> registry \<Rightarrow> string \<Rightarrow> int \<Rightarrow> TerminalShellType \<Rightarrow> CancellationToken \<Rightarrow> bool
     \<Rightarrow> error + ITerminalCompletion list option" where
  "provideCompletions env reg promptValue cursorPosition shellType token triggerCharacter =
     (let extensionCompletionsEnabled = enableExtensionCompletions env;
          provs0 = candidates reg promptValue cursorPosition triggerCharacter;
          provs = (if \<not> extensionCompletionsEnabled
                   then filter (\<lambda>p. isBuiltin p = Some True) provs0 else provs0)
      in collectCompletions env provs shellType promptValue cursorPosition token)"

section \<open>The engine on the completion objects\<close>

text \<open>
  In the source a completion is an object. A provider hands out references to its
  completions, the callback of \<open>completionItems.map\<close> writes the new detail into the object
  it is given, the callbacks of the providers resume in the order in which the providers
  answer, and the caller of the query reads the objects once \<open>Promise.all\<close> has settled.
  This section models that: a store gives the object a reference currently points to, an
  answer of a provider is given by the references it holds, and an element of a result
  array is a reference to a provider's object or a new object made by the path resolver.
\<close>

type_synonym store = "nat \<Rightarrow> ITerminalCompletion"

datatype completionsRef =
  ThrowsRef
  | UndefinedRef
  | ArrayRef "nat list"
  | CompletionListRef "nat list option" "TerminalResourceRequestConfig option"

text \<open>The answer as the values of the objects it refers to.\<close>

definition deref :: "store \<Rightarrow> completionsRef \<Rightarrow> completions" where
  "deref st answer =
     (case answer of
        ThrowsRef \<Rightarrow> Throws
      | UndefinedRef \<Rightarrow> Undefined
      | ArrayRef refs \<Rightarrow> Array (map st refs)
      | CompletionListRef refs cfg \<Rightarrow>
          CompletionList \<lparr>items = map_option (map st) refs, resourceRequestConfig = cfg\<rparr>)"

datatype slot = Ref nat | Fresh ITerminalCompletion

definition readSlot :: "store \<Rightarrow> slot \<Rightarrow> ITerminalCompletion" where
  "readSlot st s = (case s of Ref r \<Rightarrow> st r | Fresh completion \<Rightarrow> completion)"

text \<open>The asynchronous callback of \<open>providers.map\<close> from the point where it resumes with
  the answer of its provider: the store after it, and what its promise settles to.\<close>

definition callbackInPlace ::
  "collaborators \<Rightarrow> TerminalShellType \<Rightarrow> string \<Rightarrow> int
     \<Rightarrow> ITerminalCompletionProvider \<times> completionsRef \<Rightarrow> store
     \<Rightarrow> store \<times> (error + slot list option)" where
  "callbackInPlace env shellType promptValue cursorPosition call st =
     (case call of
        (provider, completions) \<Rightarrow>
          if (case shellTypes provider of None \<Rightarrow> False | Some ts \<Rightarrow> shellType \<notin> set ts)
          then (st, Inr None)
          else
            (case completions of
               ThrowsRef \<Rightarrow> (st, Inl Rejected)
             | UndefinedRef \<Rightarrow> (st, Inr None)
             | ArrayRef completionItems \<Rightarrow>
                 (annotateInPlace (devMode env) (providerId provider) completionItems st,
                  Inr (Some (map Ref completionItems)))
             | CompletionListRef its cfgO \<Rightarrow>
                 (let completionItems = (case its of None \<Rightarrow> [] | Some refs \<Rightarrow> refs);
                      st1 = annotateInPlace (devMode env) (providerId provider) completionItems st;
                      itemsWithModifiedLabels = map Ref completionItems
                  in case cfgO of
                       Some cfg \<Rightarrow>
                         (case resolveResources env cfg promptValue cursorPosition of
                            Some resourceCompletions \<Rightarrow>
                              (st1, Inr (Some (itemsWithModifiedLabels @ map Fresh resourceCompletions)))
                          | None \<Rightarrow> (st1, Inr (Some itemsWithModifiedLabels)))
                     | None \<Rightarrow> (st1, Inr None))))"




section \<open>Auxiliary notions for the statements and proofs\<close>

text \<open>The provider as the registration stores it, and the inner map of an extension
  (empty when the extension has none).\<close>

definition stamp ::
  "string \<Rightarrow> string list \<Rightarrow> ITerminalCompletionProvider \<Rightarrow> ITerminalCompletionProvider" where
  "stamp i trigs provider = provider\<lparr>triggerCharacters := Some trigs, providerId := i\<rparr>"

definition extMapOf :: "registry \<Rightarrow> string \<Rightarrow> providerMap" where
  "extMapOf reg ext = (case map_of reg ext of None \<Rightarrow> [] | Some m \<Rightarrow> m)"

text \<open>A provider has a trigger character that the prompt up to the cursor ends with.\<close>

definition triggerMatches :: "ITerminalCompletionProvider \<Rightarrow> string \<Rightarrow> int \<Rightarrow> bool" where
  "triggerMatches p promptValue cursorPosition =
     list_ex (\<lambda>char. endsWith (substring0 promptValue cursorPosition) char)
       (case triggerCharacters p of None \<Rightarrow> [] | Some chars \<Rightarrow> chars)"

text \<open>The policy filter of \<open>provideCompletions\<close>.\<close>

definition policy ::
  "collaborators \<Rightarrow> ITerminalCompletionProvider list \<Rightarrow> ITerminalCompletionProvider list" where
  "policy env provs =
     (if enableExtensionCompletions env then provs else filter (\<lambda>p. isBuiltin p = Some True) provs)"

text \<open>A provider is invoked for a shell type unless it declares shell types that exclude
  it; its invocation fails when it is invoked and throws.\<close>

definition invoked :: "TerminalShellType \<Rightarrow> ITerminalCompletionProvider \<Rightarrow> bool" where
  "invoked shellType p = (case shellTypes p of None \<Rightarrow> True | Some ts \<Rightarrow> shellType \<in> set ts)"

definition throws ::
  "TerminalShellType \<Rightarrow> string \<Rightarrow> int \<Rightarrow> CancellationToken \<Rightarrow> ITerminalCompletionProvider \<Rightarrow> bool" where
  "throws shellType promptValue cursorPosition token p \<longleftrightarrow>
     invoked shellType p \<and> provideCompletions_p p promptValue cursorPosition token = Throws"

text \<open>What one provider adds to the merged list: the array its promise settles to, nothing
  when that is \<open>undefined\<close>.\<close>

definition contribution ::
  "collaborators \<Rightarrow> TerminalShellType \<Rightarrow> string \<Rightarrow> int \<Rightarrow> CancellationToken
     \<Rightarrow> ITerminalCompletionProvider \<Rightarrow> ITerminalCompletion list" where
  "contribution env shellType promptValue cursorPosition token p =
     (case providerCompletions env shellType promptValue cursorPosition token p of
        Inr (Some completions) \<Rightarrow> completions
      | _ \<Rightarrow> [])"

text \<open>The names \<open>_resolveResources\<close> gives to its intermediate values: the parent
  directory, the last word of the prompt, and the children a listing gives (nothing when
  the stat or its children are missing).\<close>

definition parentCwdOf :: "collaborators \<Rightarrow> TerminalResourceRequestConfig \<Rightarrow> URI \<Rightarrow> URI" where
  "parentCwdOf env cfg cwdU =
     URI_from (scheme cwdU)
       (join (pathSeparator cfg) (butlast (split (fsPath env cwdU) (pathSeparator cfg))))"

definition lastWordOf :: "string \<Rightarrow> int \<Rightarrow> string" where
  "lastWordOf promptValue cursorPosition =
     (case split (substring0 promptValue cursorPosition) '' '' of [] \<Rightarrow> [] | w # ws \<Rightarrow> last (w # ws))"

definition listing :: "collaborators \<Rightarrow> URI \<Rightarrow> IFileStat list option" where
  "listing env dir = (case resolve env dir of None \<Rightarrow> None | Some fileStat \<Rightarrow> children fileStat)"

text \<open>The references an answer holds, the objects the callback of an invocation writes to,
  and what its promise settles to.\<close>

definition refsOf :: "completionsRef \<Rightarrow> nat list" where
  "refsOf answer =
     (case answer of
        ArrayRef refs \<Rightarrow> refs
      | CompletionListRef (Some refs) cfg \<Rightarrow> refs
      | _ \<Rightarrow> [])"

definition touched ::
  "TerminalShellType \<Rightarrow> ITerminalCompletionProvider \<times> completionsRef \<Rightarrow> nat list" where
  "touched shellType call = (if invoked shellType (fst call) then refsOf (snd call) else [])"

definition readResult ::
  "store \<Rightarrow> error + slot list option \<Rightarrow> error + ITerminalCompletion list option" where
  "readResult st r =
     (case r of
        Inl e \<Rightarrow> Inl e
      | Inr None \<Rightarrow> Inr None
      | Inr (Some slots) \<Rightarrow> Inr (Some (map (readSlot st) slots)))"






section \<open>Concrete inputs\<close>

text \<open>A provider that answers every request with the same value.\<close>

definition constProvider :: "completions \<Rightarrow> ITerminalCompletionProvider" where
  "constProvider c =
     \<lparr>providerId = [], shellTypes = None, provideCompletions_p = (\<lambda>value cursorPosition token. c),
      triggerCharacters = None, isBuiltin = None\<rparr>"

definition item :: "string \<Rightarrow> ITerminalCompletion" where
  "item l =
     \<lparr>label = l, detail = None, kind = None, isDirectory = None, isFile = None,
      replacementIndex = 0, replacementLength = 0\<rparr>"

text \<open>One provider registered under the key \<open>(ext, p)\<close>, and a second registration under
  the same key.\<close>

definition regA :: registry where
  "regA = registerTerminalCompletionProvider ''ext'' ''p'' (constProvider (Array [item ''a''])) [] []"

definition regAB :: registry where
  "regAB = registerTerminalCompletionProvider ''ext'' ''p'' (constProvider (Array [item ''b''])) [] regA"

text \<open>A provider registered with the trigger characters \<open>-\<close> and \<open>/\<close>, and one registered
  with none.\<close>

definition regTrig :: registry where
  "regTrig =
     registerTerminalCompletionProvider ''ext'' ''n'' (constProvider (Array [item ''n''])) []
       (registerTerminalCompletionProvider ''ext'' ''t'' (constProvider (Array [item ''t'']))
          [''-'', ''/''] [])"

text \<open>Collaborators with extension completions on, dev mode off and a file service that
  resolves nothing.\<close>

definition env0 :: collaborators where
  "env0 = \<lparr>enableExtensionCompletions = True, devMode = False, resolve = (\<lambda>u. None), fsPath = path\<rparr>"

text \<open>Three providers, the second of which throws; and the same with a second provider
  that returns \<open>undefined\<close>.\<close>

definition reg3 :: registry where
  "reg3 =
     registerTerminalCompletionProvider ''ext'' ''p3'' (constProvider (Array [item ''c''])) []
       (registerTerminalCompletionProvider ''ext'' ''p2'' (constProvider Throws) []
          (registerTerminalCompletionProvider ''ext'' ''p1'' (constProvider (Array [item ''a''])) [] []))"

definition reg3u :: registry where
  "reg3u =
     registerTerminalCompletionProvider ''ext'' ''p3'' (constProvider (Array [item ''c''])) []
       (registerTerminalCompletionProvider ''ext'' ''p2'' (constProvider Undefined) []
          (registerTerminalCompletionProvider ''ext'' ''p1'' (constProvider (Array [item ''a''])) [] []))"

text \<open>A provider that returns \<open>new TerminalCompletionList([x])\<close>, without a resource
  request.\<close>

definition regList :: registry where
  "regList =
     registerTerminalCompletionProvider ''ext'' ''l''
       (constProvider (CompletionList \<lparr>items = Some [item ''x''], resourceRequestConfig = None\<rparr>))
       [] []"

text \<open>A working directory \<open>/home/u\<close> with one folder and one file, whose parent cannot be
  listed; the request for its files and folders; and a provider that returns one item
  with that request.\<close>

definition homeU :: URI where
  "homeU = URI_from ''file'' ''/home/u''"

definition envHome :: collaborators where
  "envHome =
     \<lparr>enableExtensionCompletions = True, devMode = False,
      resolve = (\<lambda>u. if path u = ''/home/u''
                      then Some (FileStat u True False
                             (Some [FileStat (URI_from ''file'' ''/home/u/proj'') True False None,
                                    FileStat (URI_from ''file'' ''/home/u/a.txt'') False True None]))
                      else None),
      fsPath = path\<rparr>"

definition cfgHome :: TerminalResourceRequestConfig where
  "cfgHome =
     \<lparr>filesRequested = Some True, foldersRequested = Some True, cwd = Some homeU,
      pathSeparator = ''/''\<rparr>"

definition regHome :: registry where
  "regHome =
     registerTerminalCompletionProvider ''ext'' ''h''
       (constProvider (CompletionList \<lparr>items = Some [item ''x''], resourceRequestConfig = Some cfgHome\<rparr>))
       [] []"

text \<open>A working directory with the empty path, which is its own parent, holding one
  file.\<close>

definition rootU :: URI where
  "rootU = URI_from ''memfs'' []"

definition envRoot :: collaborators where
  "envRoot =
     \<lparr>enableExtensionCompletions = True, devMode = False,
      resolve = (\<lambda>u. if path u = []
                      then Some (FileStat u True False
                             (Some [FileStat (URI_from ''memfs'' ''/x'') False True None]))
                      else None),
      fsPath = path\<rparr>"

definition cfgRoot :: TerminalResourceRequestConfig where
  "cfgRoot =
     \<lparr>filesRequested = Some True, foldersRequested = Some True, cwd = Some rootU,
      pathSeparator = ''/''\<rparr>"

text \<open>A provider for two shell types that returns one item with the request for the files
  and folders of \<open>/home/u\<close>; the references of such an answer; and collaborators in dev
  mode whose file service lists \<open>/home/u\<close> and its parent.\<close>

definition gitProvider :: ITerminalCompletionProvider where
  "gitProvider =
     \<lparr>providerId = ''git'', shellTypes = Some [''bash'', ''zsh''],
      provideCompletions_p =
        (\<lambda>value cursorPosition token.
           CompletionList \<lparr>items = Some [item ''status''], resourceRequestConfig = Some cfgHome\<rparr>),
      triggerCharacters = None, isBuiltin = None\<rparr>"

definition regGit :: registry where
  "regGit = registerTerminalCompletionProvider ''ext'' ''git'' gitProvider [] []"

definition gitAnswer :: completionsRef where
  "gitAnswer = CompletionListRef (Some [0]) (Some cfgHome)"

definition envTree :: collaborators where
  "envTree =
     \<lparr>enableExtensionCompletions = True, devMode = True,
      resolve = (\<lambda>u. if path u = ''/home/u''
                      then Some (FileStat u True False
                             (Some [FileStat (URI_from ''file'' ''/home/u/a.txt'') False True None]))
                      else if path u = ''/home''
                      then Some (FileStat u True False
                             (Some [FileStat (URI_from ''file'' ''/home/u'') True False None]))
                      else None),
      fsPath = path\<rparr>"





section \<open>The registry: replacement and disposal\<close>

lemma register_eq:
  "registerTerminalCompletionProvider ext i p trigs reg =
     AList.update ext (AList.update i (stamp i trigs p) (extMapOf reg ext)) reg"
  by (simp add: registerTerminalCompletionProvider_def stamp_def extMapOf_def Let_def
      split: option.split)

lemma list_all_update:
  "list_all P al \<Longrightarrow> P (k, v) \<Longrightarrow> list_all P (AList.update k v al)"
  by (induction al) auto

lemma list_all_delete:
  "list_all P al \<Longrightarrow> list_all P (AList.delete k al)"
  by (induction al) auto

lemma map_of_list_all:
  "list_all P al \<Longrightarrow> map_of al k = Some v \<Longrightarrow> P (k, v)"
  by (induction al) (auto split: if_splits)

lemma wellFormed_Nil: "wellFormed []"
  by (simp add: wellFormed_def)

lemma extMapOf_distinct: "wellFormed reg \<Longrightarrow> distinct (map fst (extMapOf reg ext))"
  by (auto simp: wellFormed_def extMapOf_def split: option.split dest: map_of_list_all)

lemma wellFormed_register:
  "wellFormed reg \<Longrightarrow> wellFormed (registerTerminalCompletionProvider ext i p trigs reg)"
  unfolding register_eq
  using extMapOf_distinct[of reg ext]
  by (auto simp: wellFormed_def distinct_update intro!: list_all_update)

lemma wellFormed_dispose: "wellFormed reg \<Longrightarrow> wellFormed (dispose ext i reg)"
  by (auto simp: wellFormed_def dispose_def Let_def distinct_update distinct_delete
      split: option.split intro!: list_all_update list_all_delete dest: map_of_list_all)

lemma wellFormed_applyOp: "wellFormed reg \<Longrightarrow> wellFormed (applyOp reg op)"
  by (cases op) (simp_all add: wellFormed_register wellFormed_dispose)

lemma wellFormed_foldl: "wellFormed reg \<Longrightarrow> wellFormed (foldl applyOp reg ops)"
  by (induction ops arbitrary: reg) (simp_all add: wellFormed_applyOp)

lemma wellFormed_registryAfter: "wellFormed (registryAfter ops)"
  by (simp add: registryAfter_def wellFormed_foldl wellFormed_Nil)

lemma lookup_register_same:
  "lookup (registerTerminalCompletionProvider ext i p trigs reg) ext i = Some (stamp i trigs p)"
  by (simp add: register_eq lookup_def update_conv')

lemma lookup_dispose_same: "lookup (dispose ext i reg) ext i = None"
  by (auto simp: lookup_def dispose_def Let_def update_conv' delete_conv' split: option.split)

lemma map_of_entries:
  "distinct (map fst reg) \<Longrightarrow> map_of (entries reg) (ext, i) = lookup reg ext i"
proof (induction reg)
  case Nil
  then show ?case by (simp add: entries_def lookup_def)
next
  case (Cons a reg)
  obtain e m where a: "a = (e, m)" by (cases a)
  have inner: "map_of (map (\<lambda>(j, p). ((e, j), p)) m) (ext, i) = (if e = ext then map_of m i else None)"
    by (induction m) auto
  have rest: "map_of (entries reg) (ext, i) = lookup reg ext i"
    using Cons by simp
  have notin: "e = ext \<Longrightarrow> map_of reg ext = None"
    using Cons.prems a by (auto simp: map_of_eq_None_iff)
  show ?case
    using rest inner notin
    by (auto simp: a entries_def lookup_def map_add_def map_of_append split: option.split)
qed

lemma distinct_entries: "wellFormed reg \<Longrightarrow> distinct (map fst (entries reg))"
proof (induction reg)
  case Nil
  then show ?case by (simp add: entries_def)
next
  case (Cons a reg)
  obtain e m where a: "a = (e, m)" by (cases a)
  have wf: "wellFormed reg" using Cons.prems by (simp add: wellFormed_def)
  have keys_m: "map fst (map (\<lambda>(j, p). ((e, j), p)) m) = map (\<lambda>j. (e, j)) (map fst m)"
    by (induction m) auto
  have d1: "distinct (map fst (map (\<lambda>(j, p). ((e, j), p)) m))"
    using Cons.prems unfolding keys_m by (auto simp: a wellFormed_def distinct_map inj_on_def)
  have fst_entries: "\<And>r. fst ` fst ` set (entries r) \<subseteq> fst ` set r"
    by (auto simp: entries_def) force
  have disj: "set (map fst (map (\<lambda>(j, p). ((e, j), p)) m)) \<inter> set (map fst (entries reg)) = {}"
    using Cons.prems fst_entries[of reg] unfolding keys_m
    by (auto simp: a wellFormed_def) force
  show ?case
    using d1 disj Cons.IH[OF wf] by (simp add: a entries_def)
qed


lemma snd_entries: "map snd (entries reg) = providers reg"
proof -
  have inner: "\<And>e m. map snd (map (\<lambda>(j, p). ((e :: string, j :: string), p :: ITerminalCompletionProvider)) m) = map snd m"
    by (induct_tac m) auto
  show ?thesis
    by (induction reg) (auto simp: entries_def providers_def inner map_concat)
qed

lemma filter_key_distinct:
  "distinct (map fst al) \<Longrightarrow> map_of al k = Some v \<Longrightarrow> filter (\<lambda>e. fst e = k) al = [(k, v)]"
proof (induction al)
  case Nil
  then show ?case by simp
next
  case (Cons a al)
  have none: "filter (\<lambda>e. fst e = k) al = []" if "fst a = k"
  proof -
    have "k \<notin> fst ` set al" using Cons.prems(1) that by auto
    then have "\<forall>e \<in> set al. fst e \<noteq> k" by (metis imageI)
    then show ?thesis by (simp add: filter_empty_conv)
  qed
  show ?case
    using Cons none by (cases a) (auto split: if_splits)
qed



lemma length_update_present: "map_of al k = Some w \<Longrightarrow> length (AList.update k v al) = length al"
  by (induction al) (auto split: if_splits)

lemma length_delete_present:
  "distinct (map fst al) \<Longrightarrow> map_of al k = Some w \<Longrightarrow> Suc (length (AList.delete k al)) = length al"
proof (induction al)
  case Nil
  then show ?case by simp
next
  case (Cons a al)
  show ?case
  proof (cases "fst a = k")
    case True
    then have "k \<notin> fst ` set al" using Cons.prems(1) by auto
    then show ?thesis using True by (cases a) simp
  next
    case False
    then show ?thesis using Cons by (cases a) auto
  qed
qed

lemma count_update:
  "distinct (map fst reg) \<Longrightarrow>
   length (providers (AList.update k v reg)) + length (extMapOf reg k) = length (providers reg) + length v"
proof (induction reg)
  case Nil
  then show ?case by (simp add: providers_def extMapOf_def)
next
  case (Cons a reg)
  obtain e m where a: "a = (e, m)" by (cases a)
  show ?case
  proof (cases "e = k")
    case True
    then show ?thesis by (simp add: a providers_def extMapOf_def)
  next
    case False
    have "length (providers (AList.update k v reg)) + length (extMapOf reg k)
            = length (providers reg) + length v"
      using Cons by simp
    then show ?thesis using False by (simp add: a providers_def extMapOf_def)
  qed
qed

lemma count_delete:
  "distinct (map fst reg) \<Longrightarrow>
   length (providers (AList.delete k reg)) + length (extMapOf reg k) = length (providers reg)"
proof (induction reg)
  case Nil
  then show ?case by (simp add: providers_def extMapOf_def)
next
  case (Cons a reg)
  obtain e m where a: "a = (e, m)" by (cases a)
  show ?case
  proof (cases "e = k")
    case True
    then have "k \<notin> fst ` set reg" using Cons.prems a by auto
    then show ?thesis using True by (simp add: a providers_def extMapOf_def)
  next
    case False
    have "length (providers (AList.delete k reg)) + length (extMapOf reg k) = length (providers reg)"
      using Cons by simp
    then show ?thesis using False by (simp add: a providers_def extMapOf_def)
  qed
qed

lemma extMapOf_register:
  "extMapOf (registerTerminalCompletionProvider ext i p trigs reg) ext
     = AList.update i (stamp i trigs p) (extMapOf reg ext)"
  by (simp add: register_eq extMapOf_def update_conv')

lemma lookup_extMapOf: "lookup reg ext i = map_of (extMapOf reg ext) i"
  by (simp add: lookup_def extMapOf_def split: option.split)


lemma count_register_present:
  assumes "wellFormed reg" and "lookup reg ext i = Some q"
  shows "length (providers (registerTerminalCompletionProvider ext i p trigs reg))
           = length (providers reg)"
proof -
  have d: "distinct (map fst reg)" using assms(1) by (simp add: wellFormed_def)
  have "length (AList.update i (stamp i trigs p) (extMapOf reg ext)) = length (extMapOf reg ext)"
    using assms(2) by (simp add: length_update_present lookup_extMapOf)
  then show ?thesis
    using count_update[OF d, of ext "AList.update i (stamp i trigs p) (extMapOf reg ext)"]
    by (simp add: register_eq)
qed

lemma count_dispose_present:
  assumes "wellFormed reg" and "lookup reg ext i = Some q"
  shows "length (providers (dispose ext i reg)) + 1 = length (providers reg)"
proof -
  have d: "distinct (map fst reg)" using assms(1) by (simp add: wellFormed_def)
  obtain m where m: "map_of reg ext = Some m" and mi: "map_of m i = Some q"
    using assms(2) by (auto simp: lookup_def split: option.splits)
  have dm: "distinct (map fst m)"
    using assms(1) m by (auto simp: wellFormed_def dest: map_of_list_all)
  have len: "Suc (length (AList.delete i m)) = length m"
    using length_delete_present[OF dm mi] .
  have em: "extMapOf reg ext = m" using m by (simp add: extMapOf_def)
  show ?thesis
  proof (cases "AList.delete i m = []")
    case True
    then show ?thesis
      using count_delete[OF d, of ext] len m em by (simp add: dispose_def)
  next
    case False
    then show ?thesis
      using count_update[OF d, of ext "AList.delete i m"] len m em by (simp add: dispose_def)
  qed
qed




lemma wellFormed_distinct: "wellFormed reg \<Longrightarrow> distinct (map fst reg)"
  by (simp add: wellFormed_def)

text \<open>
  Claim C4. Registering a second provider under the same \<open>(namespaceId, providerId)\<close>
  pair leaves exactly one entry for the pair, which holds the second provider; the number
  of providers does not grow; and in every registry the service can reach, no two entries
  of the enumeration have the same composite key.
\<close>

theorem register_same_key_replaces:
  "(let r1 = registerTerminalCompletionProvider ext i p1 t1 (registryAfter ops);
        r2 = registerTerminalCompletionProvider ext i p2 t2 r1
    in filter (\<lambda>e. fst e = (ext, i)) (entries r2) = [((ext, i), stamp i t2 p2)]
       \<and> length (providers r2) = length (providers r1)
       \<and> map snd (entries r2) = providers r2
       \<and> distinct (map fst (entries r2)))
   \<and> distinct (map fst (entries (registryAfter ops)))"
proof -
  define r1 where "r1 = registerTerminalCompletionProvider ext i p1 t1 (registryAfter ops)"
  define r2 where "r2 = registerTerminalCompletionProvider ext i p2 t2 r1"
  have wf1: "wellFormed r1"
    unfolding r1_def by (rule wellFormed_register[OF wellFormed_registryAfter])
  have wf2: "wellFormed r2"
    unfolding r2_def by (rule wellFormed_register[OF wf1])
  have d2: "distinct (map fst (entries r2))"
    by (rule distinct_entries[OF wf2])
  have "map_of (entries r2) (ext, i) = Some (stamp i t2 p2)"
    using map_of_entries[OF wellFormed_distinct[OF wf2], of ext i]
    by (simp add: r2_def lookup_register_same)
  then have one: "filter (\<lambda>e. fst e = (ext, i)) (entries r2) = [((ext, i), stamp i t2 p2)]"
    by (rule filter_key_distinct[OF d2])
  have "lookup r1 ext i = Some (stamp i t1 p1)"
    by (simp add: r1_def lookup_register_same)
  then have len: "length (providers r2) = length (providers r1)"
    unfolding r2_def by (rule count_register_present[OF wf1])
  have "distinct (map fst (entries (registryAfter ops)))"
    by (rule distinct_entries[OF wellFormed_registryAfter])
  then show ?thesis
    using one len d2 snd_entries[of r2] by (simp add: Let_def r1_def r2_def)
qed

theorem register_same_key_replaces_witness:
  "filter (\<lambda>e. fst e = (''ext'', ''p'')) (entries regAB)
     = [((''ext'', ''p''), stamp ''p'' [] (constProvider (Array [item ''b''])))]
   \<and> length (providers regAB) = length (providers regA)"
  using register_same_key_replaces
          [where ext = "''ext''" and i = "''p''" and ops = "[]"
             and ?p1.0 = "constProvider (Array [item ''a''])" and ?t1.0 = "[]"
             and ?p2.0 = "constProvider (Array [item ''b''])" and ?t2.0 = "[]"]
  by (simp add: Let_def regAB_def regA_def registryAfter_def)

lemma filter_key_absent:
  "map_of al k = None \<Longrightarrow> filter (\<lambda>e. fst e = k) al = []"
proof -
  assume "map_of al k = None"
  then have "k \<notin> fst ` set al" by (simp add: map_of_eq_None_iff)
  then have "\<forall>e \<in> set al. fst e \<noteq> k" by (metis imageI)
  then show ?thesis by (simp add: filter_empty_conv)
qed




text \<open>
  Claim C10. The disposal handle holds the key only: after provider A is registered under
  a key and provider B replaces it under the same key, the handle returned for A (the
  function \<open>dispose ext i\<close>) removes the entry of B, and the registry has no entry under
  the key any more.
\<close>

theorem old_handle_removes_replacement:
  "(let r1 = registerTerminalCompletionProvider ext i b tb
               (registerTerminalCompletionProvider ext i a ta (registryAfter ops));
        r2 = dispose ext i r1
    in filter (\<lambda>e. fst e = (ext, i)) (entries r1) = [((ext, i), stamp i tb b)]
       \<and> filter (\<lambda>e. fst e = (ext, i)) (entries r2) = []
       \<and> lookup r2 ext i = None
       \<and> length (providers r2) + 1 = length (providers r1))"
proof -
  define r0 where "r0 = registerTerminalCompletionProvider ext i a ta (registryAfter ops)"
  define r1 where "r1 = registerTerminalCompletionProvider ext i b tb r0"
  define r2 where "r2 = dispose ext i r1"
  have wf0: "wellFormed r0"
    unfolding r0_def by (rule wellFormed_register[OF wellFormed_registryAfter])
  have wf1: "wellFormed r1"
    unfolding r1_def by (rule wellFormed_register[OF wf0])
  have wf2: "wellFormed r2"
    unfolding r2_def by (rule wellFormed_dispose[OF wf1])
  have l1: "lookup r1 ext i = Some (stamp i tb b)"
    by (simp add: r1_def lookup_register_same)
  have l2: "lookup r2 ext i = None"
    by (simp add: r2_def lookup_dispose_same)
  have e1: "filter (\<lambda>e. fst e = (ext, i)) (entries r1) = [((ext, i), stamp i tb b)]"
    using map_of_entries[OF wellFormed_distinct[OF wf1], of ext i] l1
    by (simp add: filter_key_distinct[OF distinct_entries[OF wf1]])
  have e2: "filter (\<lambda>e. fst e = (ext, i)) (entries r2) = []"
    using map_of_entries[OF wellFormed_distinct[OF wf2], of ext i] l2
    by (simp add: filter_key_absent)
  have cnt: "length (providers r2) + 1 = length (providers r1)"
    unfolding r2_def by (rule count_dispose_present[OF wf1 l1])
  show ?thesis
    using e1 e2 l2 cnt
    unfolding Let_def r0_def[symmetric] r1_def[symmetric] r2_def[symmetric] by simp
qed

theorem old_handle_removes_replacement_witness:
  "filter (\<lambda>e. fst e = (''ext'', ''p'')) (entries regAB)
     = [((''ext'', ''p''), stamp ''p'' [] (constProvider (Array [item ''b''])))]
   \<and> providers (dispose ''ext'' ''p'' regAB) = []"
  using old_handle_removes_replacement
          [where ops = "[]" and ext = "''ext''" and i = "''p''"
             and a = "constProvider (Array [item ''a''])" and ta = "[]"
             and b = "constProvider (Array [item ''b''])" and tb = "[]"]
  by (simp add: Let_def regAB_def regA_def registryAfter_def providers_def dispose_def
      registerTerminalCompletionProvider_def)

section \<open>The trigger selector\<close>

lemma charLoop_list_ex: "charLoop s chars = list_ex (endsWith s) chars"
  by (induction chars) auto

lemma providerLoop_filter:
  "providerLoop ps pv cp acc = acc @ filter (\<lambda>p. triggerMatches p pv cp) ps"
proof (induction ps arbitrary: acc)
  case Nil
  then show ?case by simp
next
  case (Cons p ps)
  show ?case
  proof (cases "triggerCharacters p")
    case None
    then show ?thesis using Cons by (simp add: triggerMatches_def)
  next
    case (Some chars)
    then show ?thesis using Cons by (simp add: triggerMatches_def charLoop_list_ex)
  qed
qed

lemma endsWith_single: "endsWith s [ch] \<longleftrightarrow> s \<noteq> [] \<and> last s = ch"
proof (cases s rule: rev_cases)
  case Nil
  then show ?thesis by (simp add: endsWith_def)
next
  case (snoc ys y)
  then show ?thesis by (auto simp: endsWith_def)
qed

lemma provideCompletions_policy:
  "provideCompletions env reg pv cp sh tok trig =
     collectCompletions env (policy env (candidates reg pv cp trig)) sh pv cp tok"
  by (simp add: provideCompletions_def policy_def Let_def)

lemma endsWith_suffix: "endsWith s t \<longleftrightarrow> suffix t s"
proof
  assume e: "endsWith s t"
  have d: "drop (length s - length t) s = t"
    using e by (simp add: endsWith_def)
  have "s = take (length s - length t) s @ drop (length s - length t) s"
    by simp
  then have "s = take (length s - length t) s @ t"
    unfolding d .
  then show "suffix t s"
    by (rule suffixI)
next
  assume "suffix t s"
  then obtain zs where "s = zs @ t"
    by (auto simp: suffix_def)
  then show "endsWith s t"
    by (simp add: endsWith_def)
qed

lemma triggerMatches_suffix:
  "triggerMatches p pv cp =
     list_ex (\<lambda>char. suffix char (take (nat cp) pv))
       (case triggerCharacters p of None \<Rightarrow> [] | Some chars \<Rightarrow> chars)"
  by (simp add: triggerMatches_def endsWith_suffix substring0_def)

lemma suffix_single: "suffix [ch] (s :: string) \<longleftrightarrow> s \<noteq> [] \<and> last s = ch"
  using endsWith_single[of s ch] by (simp add: endsWith_suffix)

text \<open>
  Claim C6. In trigger-character mode the candidates are exactly the registered providers,
  in enumeration order, that have a trigger character which is a suffix of the first
  \<open>cursorPosition\<close> characters of the prompt (none of them for a negative cursor, all of
  them for a cursor beyond the end); each trigger character is tested on its own, a
  one-character one against the last character of that prefix; a provider without trigger
  characters (none, or an empty list) is never selected; and the query runs the
  candidates that pass the policy filter.
\<close>

theorem trigger_candidates:
  "candidates reg pv cp True =
     filter (\<lambda>p. list_ex (\<lambda>char. suffix char (take (nat cp) pv))
                   (case triggerCharacters p of None \<Rightarrow> [] | Some chars \<Rightarrow> chars))
       (providers reg)
   \<and> (q \<in> set (candidates reg pv cp True) \<longleftrightarrow>
        q \<in> set (providers reg)
        \<and> (\<exists>chars char a. triggerCharacters q = Some chars \<and> char \<in> set chars
              \<and> take (nat cp) pv = a @ char))
   \<and> (triggerCharacters q = None \<or> triggerCharacters q = Some [] \<longrightarrow>
        q \<notin> set (candidates reg pv cp True))
   \<and> (suffix [ch] (take (nat cp) pv) \<longleftrightarrow>
        take (nat cp) pv \<noteq> [] \<and> last (take (nat cp) pv) = ch)
   \<and> provideCompletions env reg pv cp sh tok True =
        collectCompletions env
          (if enableExtensionCompletions env then candidates reg pv cp True
           else filter (\<lambda>p. isBuiltin p = Some True) (candidates reg pv cp True))
          sh pv cp tok"
proof -
  have sel: "candidates reg pv cp True =
     filter (\<lambda>p. list_ex (\<lambda>char. suffix char (take (nat cp) pv))
                   (case triggerCharacters p of None \<Rightarrow> [] | Some chars \<Rightarrow> chars))
       (providers reg)"
    by (simp add: candidates_def providerLoop_filter triggerMatches_suffix)
  have mem: "q \<in> set (candidates reg pv cp True) \<longleftrightarrow>
        q \<in> set (providers reg)
        \<and> (\<exists>chars char a. triggerCharacters q = Some chars \<and> char \<in> set chars
              \<and> take (nat cp) pv = a @ char)"
    unfolding sel
    by (cases "triggerCharacters q") (auto simp: list_ex_iff suffix_def)
  have none: "triggerCharacters q = None \<or> triggerCharacters q = Some [] \<longrightarrow>
        q \<notin> set (candidates reg pv cp True)"
    unfolding sel by auto
  have single: "suffix [ch] (take (nat cp) pv) \<longleftrightarrow>
        take (nat cp) pv \<noteq> [] \<and> last (take (nat cp) pv) = ch"
    by (rule suffix_single)
  have query: "provideCompletions env reg pv cp sh tok True =
        collectCompletions env
          (if enableExtensionCompletions env then candidates reg pv cp True
           else filter (\<lambda>p. isBuiltin p = Some True) (candidates reg pv cp True))
          sh pv cp tok"
    by (simp add: provideCompletions_def Let_def)
  show ?thesis
    by (intro conjI sel mem none single query)
qed

theorem trigger_candidates_witness:
  "map providerId (candidates regTrig ''git - x'' 5 True) = [''t'']
   \<and> map providerId (candidates regTrig ''cd /tmp'' 4 True) = [''t'']
   \<and> candidates regTrig ''git -x'' 6 True = []
   \<and> candidates regTrig ''git -'' 3 True = []
   \<and> candidates regTrig ''git -'' (- 1) True = []
   \<and> map providerId (candidates regTrig ''git -'' 9 True) = [''t'']
   \<and> map triggerCharacters (providers regTrig) = [Some [''-'', ''/''], Some []]
   \<and> stamp ''n'' [] (constProvider (Array [item ''n''])) \<notin> set (candidates regTrig ''git -'' 5 True)"
proof -
  have ps: "providers regTrig =
      [stamp ''t'' [''-'', ''/''] (constProvider (Array [item ''t''])),
       stamp ''n'' [] (constProvider (Array [item ''n'']))]"
    by (simp add: regTrig_def registerTerminalCompletionProvider_def providers_def stamp_def)
  have n: "triggerCharacters (stamp ''n'' [] (constProvider (Array [item ''n'']))) = None
           \<or> triggerCharacters (stamp ''n'' [] (constProvider (Array [item ''n'']))) = Some []"
    by (simp add: stamp_def)
  have c1: "map providerId (candidates regTrig ''git - x'' 5 True) = [''t'']"
    using trigger_candidates[where reg = regTrig and pv = "''git - x''" and cp = 5, THEN conjunct1]
    by (simp add: ps stamp_def suffix_to_prefix)
  have c2: "map providerId (candidates regTrig ''cd /tmp'' 4 True) = [''t'']"
    using trigger_candidates[where reg = regTrig and pv = "''cd /tmp''" and cp = 4, THEN conjunct1]
    by (simp add: ps stamp_def suffix_to_prefix)
  have c3: "candidates regTrig ''git -x'' 6 True = []"
    using trigger_candidates[where reg = regTrig and pv = "''git -x''" and cp = 6, THEN conjunct1]
    by (simp add: ps stamp_def suffix_to_prefix)
  have c4: "candidates regTrig ''git -'' 3 True = []"
    using trigger_candidates[where reg = regTrig and pv = "''git -''" and cp = 3, THEN conjunct1]
    by (simp add: ps stamp_def suffix_to_prefix)
  have c5: "candidates regTrig ''git -'' (- 1) True = []"
    using trigger_candidates[where reg = regTrig and pv = "''git -''" and cp = "- 1", THEN conjunct1]
    by (simp add: ps stamp_def suffix_to_prefix)
  have c6: "map providerId (candidates regTrig ''git -'' 9 True) = [''t'']"
    using trigger_candidates[where reg = regTrig and pv = "''git -''" and cp = 9, THEN conjunct1]
    by (simp add: ps stamp_def suffix_to_prefix)
  have c7: "map triggerCharacters (providers regTrig) = [Some [''-'', ''/''], Some []]"
    by (simp add: ps stamp_def)
  have c8: "stamp ''n'' [] (constProvider (Array [item ''n''])) \<notin> set (candidates regTrig ''git -'' 5 True)"
    using trigger_candidates[where reg = regTrig and pv = "''git -''" and cp = 5
        and q = "stamp ''n'' [] (constProvider (Array [item ''n'']))"] n
    by blast
  show ?thesis
    by (intro conjI c1 c2 c3 c4 c5 c6 c7 c8)
qed

section \<open>Annotation in dev mode\<close>

lemma includes_prefix: "prefix t s \<Longrightarrow> includes_str s t"
  by (cases s) auto

lemma includes_annotated: "includes_str (pid @ rest) pid"
  by (simp add: includes_prefix)

lemma annotate_idem: "annotate dev pid (annotate dev pid c) = annotate dev pid c"
  by (cases "detail c") (simp_all add: annotate_def includes_annotated)

lemma annotateInPlace_lookup:
  "annotateInPlace dev pid refs st r = (if r \<in> set refs then annotate dev pid (st r) else st r)"
proof (induction refs arbitrary: st)
  case Nil
  then show ?case by (simp add: annotateInPlace_def)
next
  case (Cons a refs)
  have step: "annotateInPlace dev pid (a # refs) st
                = annotateInPlace dev pid refs (st(a := annotate dev pid (st a)))"
    by (simp add: annotateInPlace_def)
  show ?case
    unfolding step Cons.IH by (simp add: annotate_idem)
qed


lemma includes_sublist: "includes_str s t \<longleftrightarrow> (\<exists>a b. s = a @ t @ b)"
proof (induction s)
  case Nil
  then show ?case by auto
next
  case (Cons c cs)
  show ?case
  proof
    assume "includes_str (c # cs) t"
    then consider "prefix t (c # cs)" | "includes_str cs t" by auto
    then show "\<exists>a b. c # cs = a @ t @ b"
    proof cases
      case 1
      then obtain b where "c # cs = t @ b" by (auto simp: prefix_def)
      then have "c # cs = [] @ t @ b" by simp
      then show ?thesis by blast
    next
      case 2
      then obtain a b where "cs = a @ t @ b" using Cons.IH by blast
      then have "c # cs = (c # a) @ t @ b" by simp
      then show ?thesis by blast
    qed
  next
    assume "\<exists>a b. c # cs = a @ t @ b"
    then obtain a b where ab: "c # cs = a @ t @ b" by blast
    show "includes_str (c # cs) t"
    proof (cases a)
      case Nil
      then have "prefix t (c # cs)" using ab by (simp add: prefix_def)
      then show ?thesis by simp
    next
      case (Cons x xs)
      then have "cs = xs @ t @ b" using ab by simp
      then have "includes_str cs t" using Cons.IH by blast
      then show ?thesis by simp
    qed
  qed
qed

lemma annotateInPlace_Nil: "annotateInPlace dev pid [] st = st"
  by (simp add: annotateInPlace_def)

lemma callbackInPlace_store:
  "fst (callbackInPlace env sh pv cp call st)
     = annotateInPlace (devMode env) (providerId (fst call)) (touched sh call) st"
  by (cases call)
     (auto simp: callbackInPlace_def touched_def invoked_def refsOf_def annotateInPlace_Nil Let_def
       split: option.splits completionsRef.splits)

lemma callbackInPlace_lookup:
  "fst (callbackInPlace env sh pv cp (p, a) st) r
     = (if invoked sh p \<and> r \<in> set (refsOf a) then annotate (devMode env) (providerId p) (st r)
        else st r)"
  by (simp add: callbackInPlace_store annotateInPlace_lookup touched_def)


lemma providerCompletions_read:
  assumes "invoked sh p \<longrightarrow> provideCompletions_p p pv cp tok = deref st a"
    and "\<And>r. r \<in> set (touched sh (p, a)) \<Longrightarrow> st1 r = annotate (devMode env) (providerId p) (st r)"
  shows "providerCompletions env sh pv cp tok p
           = readResult st1 (snd (callbackInPlace env sh pv cp (p, a) st0))"
proof (cases "invoked sh p")
  case False
  then show ?thesis
    by (auto simp: providerCompletions_def callbackInPlace_def invoked_def readResult_def
        split: option.splits)
next
  case True
  then have ans: "provideCompletions_p p pv cp tok = deref st a"
    using assms(1) by simp
  have sk: "\<not> (case shellTypes p of None \<Rightarrow> False | Some ts \<Rightarrow> sh \<notin> set ts)"
    using True by (auto simp: invoked_def split: option.splits)
  have rd: "\<And>refs. refsOf a = refs \<Longrightarrow>
      map (readSlot st1) (map Ref refs) = map (annotate (devMode env) (providerId p)) (map st refs)"
    using assms(2) True by (simp add: touched_def readSlot_def)
  have fr: "\<And>rc. map (readSlot st1) (map Fresh rc) = rc"
    by (simp add: readSlot_def comp_def)
  show ?thesis
  proof (cases a)
    case ThrowsRef
    then show ?thesis
      using sk ans by (simp add: providerCompletions_def callbackInPlace_def deref_def readResult_def)
  next
    case UndefinedRef
    then show ?thesis
      using sk ans by (simp add: providerCompletions_def callbackInPlace_def deref_def readResult_def)
  next
    case (ArrayRef refs)
    then show ?thesis
      using sk ans rd[of refs]
      by (simp add: providerCompletions_def callbackInPlace_def deref_def readResult_def refsOf_def)
  next
    case (CompletionListRef its cfgO)
    show ?thesis
    proof (cases its)
      case None
      then show ?thesis
        using sk ans CompletionListRef fr
        by (auto simp: providerCompletions_def callbackInPlace_def deref_def readResult_def
            Let_def split: option.splits)
    next
      case (Some refs)
      then show ?thesis
        using sk ans CompletionListRef fr rd[of refs]
        by (auto simp: providerCompletions_def callbackInPlace_def deref_def readResult_def
            refsOf_def Let_def split: option.splits)
    qed
  qed
qed

lemma providerCompletions_Array:
  "invoked sh p \<Longrightarrow> provideCompletions_p p pv cp tok = Array cs \<Longrightarrow>
   providerCompletions env sh pv cp tok p
     = Inr (Some (map (annotate (devMode env) (providerId p)) cs))"
  by (auto simp: providerCompletions_def invoked_def split: option.splits)

lemma providerCompletions_CompletionList:
  "invoked sh p \<Longrightarrow>
   provideCompletions_p p pv cp tok = CompletionList \<lparr>items = its, resourceRequestConfig = Some cfg\<rparr> \<Longrightarrow>
   providerCompletions env sh pv cp tok p
     = Inr (Some (map (annotate (devMode env) (providerId p))
                    (case its of None \<Rightarrow> [] | Some completionItems \<Rightarrow> completionItems)
                  @ (case resolveResources env cfg pv cp of
                       None \<Rightarrow> [] | Some resourceCompletions \<Rightarrow> resourceCompletions)))"
  by (auto simp: providerCompletions_def invoked_def split: option.splits)

text \<open>
  Claim C7. For every provider that is invoked and every shape of its answer (a bare
  array, a structured batch with or without a resource request), the callback updates
  each completion object the provider returned exactly once, also when the array holds the
  same object several times, and leaves every other object alone. With dev mode on, a
  completion whose detail does not contain the provider's id gets the detail
  \<open>(<providerId>) <old detail>\<close> (the old detail read as empty when absent) and nothing
  else changes; one whose detail contains the id is unchanged, so annotating again changes
  nothing. With dev mode off the completion is unchanged. What the engine returns for the
  provider is what its promise settles to, read from the updated objects: the annotated
  items of a bare array, and the annotated items of a batch followed by the output of the
  path resolver.
\<close>

theorem dev_mode_annotation:
  "fst (callbackInPlace env sh pv cp (p, a) st) r
     = (if invoked sh p \<and> r \<in> set (refsOf a) then annotate (devMode env) (providerId p) (st r)
        else st r)
   \<and> refsOf (ArrayRef refs) = refs
   \<and> refsOf (CompletionListRef (Some refs) cfgO) = refs
   \<and> annotateInPlace dev pid refs st r = (if r \<in> set refs then annotate dev pid (st r) else st r)
   \<and> annotate False pid c = c
   \<and> (detail c = None \<longrightarrow> annotate True pid c = c\<lparr>detail := Some (''('' @ pid @ '') '')\<rparr>)
   \<and> (detail c = Some d \<and> \<not> (\<exists>u v. d = u @ pid @ v) \<longrightarrow>
        annotate True pid c = c\<lparr>detail := Some (''('' @ pid @ '') '' @ d)\<rparr>)
   \<and> (detail c = Some d \<and> (\<exists>u v. d = u @ pid @ v) \<longrightarrow> annotate True pid c = c)
   \<and> annotate dev pid (annotate dev pid c) = annotate dev pid c
   \<and> (invoked sh p \<and> provideCompletions_p p pv cp tok = deref st a \<longrightarrow>
        providerCompletions env sh pv cp tok p
          = readResult (fst (callbackInPlace env sh pv cp (p, a) st))
              (snd (callbackInPlace env sh pv cp (p, a) st)))
   \<and> (invoked sh p \<and> provideCompletions_p p pv cp tok = Array cs \<longrightarrow>
        providerCompletions env sh pv cp tok p
          = Inr (Some (map (annotate (devMode env) (providerId p)) cs)))
   \<and> (invoked sh p
        \<and> provideCompletions_p p pv cp tok
            = CompletionList \<lparr>items = its, resourceRequestConfig = Some cfg\<rparr> \<longrightarrow>
        providerCompletions env sh pv cp tok p
          = Inr (Some (map (annotate (devMode env) (providerId p))
                         (case its of None \<Rightarrow> [] | Some completionItems \<Rightarrow> completionItems)
                       @ (case resolveResources env cfg pv cp of
                            None \<Rightarrow> [] | Some resourceCompletions \<Rightarrow> resourceCompletions))))"
proof -
  have cb: "fst (callbackInPlace env sh pv cp (p, a) st) r
     = (if invoked sh p \<and> r \<in> set (refsOf a) then annotate (devMode env) (providerId p) (st r)
        else st r)"
    by (rule callbackInPlace_lookup)
  have r1: "refsOf (ArrayRef refs) = refs"
    by (simp add: refsOf_def)
  have r2: "refsOf (CompletionListRef (Some refs) cfgO) = refs"
    by (simp add: refsOf_def)
  have inplace: "annotateInPlace dev pid refs st r
                   = (if r \<in> set refs then annotate dev pid (st r) else st r)"
    by (rule annotateInPlace_lookup)
  have off: "annotate False pid c = c"
    by (simp add: annotate_def)
  have absent: "detail c = None \<longrightarrow> annotate True pid c = c\<lparr>detail := Some (''('' @ pid @ '') '')\<rparr>"
    by (simp add: annotate_def)
  have fresh: "detail c = Some d \<and> \<not> (\<exists>u v. d = u @ pid @ v) \<longrightarrow>
        annotate True pid c = c\<lparr>detail := Some (''('' @ pid @ '') '' @ d)\<rparr>"
    by (simp add: annotate_def includes_sublist)
  have kept: "detail c = Some d \<and> (\<exists>u v. d = u @ pid @ v) \<longrightarrow> annotate True pid c = c"
    by (simp add: annotate_def includes_sublist)
  have idem: "annotate dev pid (annotate dev pid c) = annotate dev pid c"
    by (rule annotate_idem)
  have engine: "invoked sh p \<and> provideCompletions_p p pv cp tok = deref st a \<longrightarrow>
        providerCompletions env sh pv cp tok p
          = readResult (fst (callbackInPlace env sh pv cp (p, a) st))
              (snd (callbackInPlace env sh pv cp (p, a) st))"
  proof
    assume h: "invoked sh p \<and> provideCompletions_p p pv cp tok = deref st a"
    show "providerCompletions env sh pv cp tok p
          = readResult (fst (callbackInPlace env sh pv cp (p, a) st))
              (snd (callbackInPlace env sh pv cp (p, a) st))"
    proof (rule providerCompletions_read)
      show "invoked sh p \<longrightarrow> provideCompletions_p p pv cp tok = deref st a"
        using h by simp
    next
      fix r
      assume "r \<in> set (touched sh (p, a))"
      then show "fst (callbackInPlace env sh pv cp (p, a) st) r
                   = annotate (devMode env) (providerId p) (st r)"
        unfolding callbackInPlace_lookup by (simp add: touched_def split: if_splits)
    qed
  qed
  have arr: "invoked sh p \<and> provideCompletions_p p pv cp tok = Array cs \<longrightarrow>
        providerCompletions env sh pv cp tok p
          = Inr (Some (map (annotate (devMode env) (providerId p)) cs))"
    using providerCompletions_Array[of sh p pv cp tok cs env] by blast
  have batch: "invoked sh p
        \<and> provideCompletions_p p pv cp tok
            = CompletionList \<lparr>items = its, resourceRequestConfig = Some cfg\<rparr> \<longrightarrow>
        providerCompletions env sh pv cp tok p
          = Inr (Some (map (annotate (devMode env) (providerId p))
                         (case its of None \<Rightarrow> [] | Some completionItems \<Rightarrow> completionItems)
                       @ (case resolveResources env cfg pv cp of
                            None \<Rightarrow> [] | Some resourceCompletions \<Rightarrow> resourceCompletions)))"
    using providerCompletions_CompletionList[of sh p pv cp tok its cfg env] by blast
  show ?thesis
    by (intro conjI cb r1 r2 inplace off absent fresh kept idem engine arr batch)
qed

theorem dev_mode_annotation_witness:
  "detail (annotate True ''git'' (item ''status'')) = Some ''(git) ''
   \<and> detail (annotate True ''git'' ((item ''status'')\<lparr>detail := Some []\<rparr>)) = Some ''(git) ''
   \<and> detail (annotate True ''git'' ((item ''status'')\<lparr>detail := Some ''a git command''\<rparr>))
       = Some ''a git command''
   \<and> annotate False ''git'' (item ''status'') = item ''status''
   \<and> detail (annotateInPlace True ''git'' [0, 0] (\<lambda>r. item ''status'') 0) = Some ''(git) ''
   \<and> invoked ''bash'' gitProvider
   \<and> provideCompletions_p gitProvider ''cd '' 3 False = deref (\<lambda>r. item ''status'') gitAnswer
   \<and> detail (fst (callbackInPlace envTree ''bash'' ''cd '' 3 (gitProvider, gitAnswer)
                     (\<lambda>r. item ''status'')) 0) = Some ''(git) ''
   \<and> fst (callbackInPlace envTree ''fish'' ''cd '' 3 (gitProvider, gitAnswer)
            (\<lambda>r. item ''status'')) 0 = item ''status''
   \<and> providerCompletions envTree ''bash'' ''cd '' 3 False gitProvider =
       Inr (Some [(item ''status'')\<lparr>detail := Some ''(git) ''\<rparr>,
                  \<lparr>label = ''./a.txt'', detail = None, kind = Some File, isDirectory = Some False,
                    isFile = Some True, replacementIndex = 3, replacementLength = 7\<rparr>,
                  \<lparr>label = ''..'', detail = None, kind = Some Folder, isDirectory = Some True,
                    isFile = Some False, replacementIndex = 3, replacementLength = 2\<rparr>])"
proof -
  note inst0 = dev_mode_annotation[where c = "item ''status''" and pid = "''git''" and dev = True
            and refs = "[0, 0]" and st = "\<lambda>r. item ''status''" and r = 0
            and env = envTree and sh = "''bash''" and pv = "''cd ''" and cp = 3 and tok = False
            and p = gitProvider and a = gitAnswer and its = "Some [item ''status'']"
            and cfg = cfgHome]
  note inst1 = dev_mode_annotation[where c = "(item ''status'')\<lparr>detail := Some []\<rparr>"
            and pid = "''git''" and d = "[]"]
  note inst2 = dev_mode_annotation[where c = "(item ''status'')\<lparr>detail := Some ''a git command''\<rparr>"
            and pid = "''git''" and d = "''a git command''"]
  note inst3 = dev_mode_annotation[where st = "\<lambda>r. item ''status''" and r = 0
            and env = envTree and sh = "''fish''" and pv = "''cd ''" and cp = 3
            and p = gitProvider and a = gitAnswer, THEN conjunct1]
  have d0: "detail (item ''status'') = None"
    by (simp add: item_def)
  have w1: "detail (annotate True ''git'' (item ''status'')) = Some ''(git) ''"
    using inst0 d0 by simp
  have w2: "detail (annotate True ''git'' ((item ''status'')\<lparr>detail := Some []\<rparr>)) = Some ''(git) ''"
    using inst1 by simp
  have ex: "\<exists>u v. ''a git command'' = u @ ''git'' @ v"
    by (rule exI[of _ "''a ''"], rule exI[of _ "'' command''"]) simp
  have w3: "detail (annotate True ''git'' ((item ''status'')\<lparr>detail := Some ''a git command''\<rparr>))
       = Some ''a git command''"
    using inst2 ex by simp
  have w4: "annotate False ''git'' (item ''status'') = item ''status''"
    using inst0 by blast
  have w5: "detail (annotateInPlace True ''git'' [0, 0] (\<lambda>r. item ''status'') 0) = Some ''(git) ''"
    using inst0 w1 by simp
  have w6: "invoked ''bash'' gitProvider"
    by (simp add: invoked_def gitProvider_def)
  have w7: "provideCompletions_p gitProvider ''cd '' 3 False = deref (\<lambda>r. item ''status'') gitAnswer"
    by (simp add: gitProvider_def gitAnswer_def deref_def)
  have pid: "providerId gitProvider = ''git''" "devMode envTree"
    by (simp_all add: gitProvider_def envTree_def)
  have w8: "detail (fst (callbackInPlace envTree ''bash'' ''cd '' 3 (gitProvider, gitAnswer)
                     (\<lambda>r. item ''status'')) 0) = Some ''(git) ''"
    using inst0 w6 w1 by (simp add: pid gitAnswer_def refsOf_def)
  have nf: "\<not> invoked ''fish'' gitProvider"
    by (simp add: invoked_def gitProvider_def)
  have w9: "fst (callbackInPlace envTree ''fish'' ''cd '' 3 (gitProvider, gitAnswer)
            (\<lambda>r. item ''status'')) 0 = item ''status''"
    using inst3 nf by simp
  have ans: "provideCompletions_p gitProvider ''cd '' 3 False
               = CompletionList \<lparr>items = Some [item ''status''], resourceRequestConfig = Some cfgHome\<rparr>"
    by (simp add: gitProvider_def)
  have res: "resolveResources envTree cfgHome ''cd '' 3 =
       Some [\<lparr>label = ''./a.txt'', detail = None, kind = Some File, isDirectory = Some False,
               isFile = Some True, replacementIndex = 3, replacementLength = 7\<rparr>,
             \<lparr>label = ''..'', detail = None, kind = Some Folder, isDirectory = Some True,
               isFile = Some False, replacementIndex = 3, replacementLength = 2\<rparr>]"
    by (simp add: resolveResources_def dirToPrefixMap_def envTree_def cfgHome_def homeU_def
        URI_from_def orFalse_def split_def substring0_def childKind_def Let_def)
  have an: "annotate True ''git'' (item ''status'') = (item ''status'')\<lparr>detail := Some ''(git) ''\<rparr>"
    using inst0 d0 by simp
  have w10: "providerCompletions envTree ''bash'' ''cd '' 3 False gitProvider =
       Inr (Some [(item ''status'')\<lparr>detail := Some ''(git) ''\<rparr>,
                  \<lparr>label = ''./a.txt'', detail = None, kind = Some File, isDirectory = Some False,
                    isFile = Some True, replacementIndex = 3, replacementLength = 7\<rparr>,
                  \<lparr>label = ''..'', detail = None, kind = Some Folder, isDirectory = Some True,
                    isFile = Some False, replacementIndex = 3, replacementLength = 2\<rparr>])"
    using inst0 w6 ans by (simp add: pid res an)
  show ?thesis
    by (intro conjI w1 w2 w3 w4 w5 w6 w7 w8 w9 w10)
qed

section \<open>The aggregation engine\<close>

lemma error_is_Rejected: "(e :: error) = Rejected"
  by (cases e) simp

lemma promiseAll_eq:
  "promiseAll rs =
     (if list_ex isl rs then Inl Rejected else Inr (map projr rs))"
proof (induction rs)
  case Nil
  then show ?case by simp
next
  case (Cons r rs)
  show ?case
  proof (cases r)
    case (Inl e)
    then show ?thesis by (simp add: error_is_Rejected[of e])
  next
    case (Inr v)
    then show ?thesis using Cons by simp
  qed
qed

lemma providerCompletions_rejects:
  "isl (providerCompletions env sh pv cp tok p) \<longleftrightarrow> throws sh pv cp tok p"
  by (auto simp: providerCompletions_def throws_def invoked_def Let_def
      split: option.splits completions.splits)

lemma contribution_flat:
  "\<not> list_ex isl rs \<Longrightarrow>
   concat (map the (filter (\<lambda>result. result \<noteq> None) (map projr rs)))
     = concat (map (\<lambda>r. case r of Inr (Some completions) \<Rightarrow> completions | _ \<Rightarrow> []) rs)"
proof (induction rs)
  case Nil
  then show ?case by simp
next
  case (Cons r rs)
  then show ?case
    by (cases r) (auto split: option.splits)
qed

lemma collectCompletions_eq:
  "collectCompletions env ps sh pv cp tok =
     (if list_ex (throws sh pv cp tok) ps then Inl Rejected
      else Inr (Some (concat (map (contribution env sh pv cp tok) ps))))"
proof -
  let ?rs = "map (providerCompletions env sh pv cp tok) ps"
  have ex: "list_ex isl ?rs \<longleftrightarrow> list_ex (throws sh pv cp tok) ps"
    by (simp add: list_ex_iff providerCompletions_rejects)
  show ?thesis
  proof (cases "list_ex (throws sh pv cp tok) ps")
    case True
    then show ?thesis
      using ex by (simp add: collectCompletions_def promiseAll_eq)
  next
    case False
    then have no: "\<not> list_ex isl ?rs" using ex by simp
    have "concat (map the (filter (\<lambda>result. result \<noteq> None) (map projr ?rs)))
            = concat (map (contribution env sh pv cp tok) ps)"
      unfolding contribution_flat[OF no] by (simp add: contribution_def[abs_def] comp_def)
    then show ?thesis
      using False no by (simp add: collectCompletions_def promiseAll_eq)
  qed
qed

lemma contribution_nothing:
  "\<not> invoked sh p \<or> provideCompletions_p p pv cp tok = Undefined \<Longrightarrow>
   contribution env sh pv cp tok p = []"
  by (auto simp: contribution_def providerCompletions_def invoked_def split: option.splits)

lemma contribution_Array:
  "invoked sh p \<Longrightarrow> provideCompletions_p p pv cp tok = Array cs \<Longrightarrow>
   contribution env sh pv cp tok p = map (annotate (devMode env) (providerId p)) cs"
  by (auto simp: contribution_def providerCompletions_def invoked_def split: option.splits)

text \<open>
  The claim C1 as it is written fails: with three providers of which the second throws,
  the query is rejected, and the items of the first and the third are not returned.
\<close>

theorem failure_isolation_counterexample:
  "provideCompletions env0 reg3 ''git '' 4 ''bash'' False False = Inl Rejected
   \<and> provideCompletions env0 reg3 ''git '' 4 ''bash'' False False
       \<noteq> Inr (Some ([item ''a''] @ [item ''c'']))"
  by (simp add: provideCompletions_def candidates_def collectCompletions_def
      providerCompletions_def reg3_def registerTerminalCompletionProvider_def env0_def
      constProvider_def)

text \<open>
  Claim C1, as amended. The promises of the providers are joined by \<open>Promise.all\<close> and no
  invocation is guarded: when a provider that is invoked throws or returns a rejected
  promise, the query itself is rejected and returns nothing. When none does, the result is
  the concatenation, in provider order, of what each provider contributes; a provider that
  is skipped for its shell type or returns \<open>undefined\<close> contributes nothing, one that
  returns an array contributes its (annotated) items.
\<close>

theorem provider_failure_rejects_query:
  "provideCompletions env reg pv cp sh tok trig =
     (if list_ex (throws sh pv cp tok) (policy env (candidates reg pv cp trig)) then Inl Rejected
      else Inr (Some (concat (map (contribution env sh pv cp tok)
                                (policy env (candidates reg pv cp trig))))))
   \<and> (\<not> invoked sh p \<or> provideCompletions_p p pv cp tok = Undefined \<longrightarrow>
        contribution env sh pv cp tok p = [])
   \<and> (invoked sh p \<and> provideCompletions_p p pv cp tok = Array cs \<longrightarrow>
        contribution env sh pv cp tok p = map (annotate (devMode env) (providerId p)) cs)"
  using collectCompletions_eq[of env "policy env (candidates reg pv cp trig)" sh pv cp tok]
    contribution_nothing[of sh p pv cp tok env] contribution_Array[of sh p pv cp tok cs env]
  by (simp add: provideCompletions_policy)

theorem provider_failure_rejects_query_witness:
  "map providerId (policy env0 (candidates reg3u ''git '' 4 False)) = [''p1'', ''p2'', ''p3'']
   \<and> provideCompletions env0 reg3u ''git '' 4 ''bash'' False False
       = Inr (Some ([item ''a''] @ [item ''c'']))
   \<and> list_ex (throws ''bash'' ''git '' 4 False) (policy env0 (candidates reg3 ''git '' 4 False))
   \<and> provideCompletions env0 reg3 ''git '' 4 ''bash'' False False = Inl Rejected"
proof -
  have ps: "policy env0 (candidates reg3u ''git '' 4 False) =
      [stamp ''p1'' [] (constProvider (Array [item ''a''])),
       stamp ''p2'' [] (constProvider Undefined),
       stamp ''p3'' [] (constProvider (Array [item ''c'']))]"
    by (simp add: policy_def env0_def candidates_def reg3u_def
        registerTerminalCompletionProvider_def stamp_def)
  have ps': "policy env0 (candidates reg3 ''git '' 4 False) =
      [stamp ''p1'' [] (constProvider (Array [item ''a''])),
       stamp ''p2'' [] (constProvider Throws),
       stamp ''p3'' [] (constProvider (Array [item ''c'']))]"
    by (simp add: policy_def env0_def candidates_def reg3_def
        registerTerminalCompletionProvider_def stamp_def)
  have inv: "\<And>i c. invoked ''bash'' (stamp i [] (constProvider c))"
    by (simp add: invoked_def stamp_def constProvider_def)
  have ans: "\<And>i c. provideCompletions_p (stamp i [] (constProvider c)) ''git '' 4 False = c"
    by (simp add: stamp_def constProvider_def)
  have dev: "devMode env0 = False"
    by (simp add: env0_def)
  have c1: "contribution env0 ''bash'' ''git '' 4 False (stamp ''p1'' [] (constProvider (Array [item ''a'']))) = [item ''a'']"
    using provider_failure_rejects_query[where env = env0 and sh = "''bash''" and pv = "''git ''"
        and cp = 4 and tok = False and cs = "[item ''a'']"
        and p = "stamp ''p1'' [] (constProvider (Array [item ''a'']))"]
    by (simp add: inv ans dev annotate_def)
  have c2: "contribution env0 ''bash'' ''git '' 4 False (stamp ''p2'' [] (constProvider Undefined)) = []"
    using provider_failure_rejects_query[where env = env0 and sh = "''bash''" and pv = "''git ''"
        and cp = 4 and tok = False and p = "stamp ''p2'' [] (constProvider Undefined)"]
    by (simp add: ans)
  have c3: "contribution env0 ''bash'' ''git '' 4 False (stamp ''p3'' [] (constProvider (Array [item ''c'']))) = [item ''c'']"
    using provider_failure_rejects_query[where env = env0 and sh = "''bash''" and pv = "''git ''"
        and cp = 4 and tok = False and cs = "[item ''c'']"
        and p = "stamp ''p3'' [] (constProvider (Array [item ''c'']))"]
    by (simp add: inv ans dev annotate_def)
  have w1: "map providerId (policy env0 (candidates reg3u ''git '' 4 False)) = [''p1'', ''p2'', ''p3'']"
    by (simp add: ps stamp_def)
  have w2: "provideCompletions env0 reg3u ''git '' 4 ''bash'' False False
       = Inr (Some ([item ''a''] @ [item ''c'']))"
    using provider_failure_rejects_query[where env = env0 and reg = reg3u and sh = "''bash''"
        and pv = "''git ''" and cp = 4 and tok = False and trig = False, THEN conjunct1]
    by (simp add: ps c1 c2 c3 throws_def ans)
  have w3: "list_ex (throws ''bash'' ''git '' 4 False) (policy env0 (candidates reg3 ''git '' 4 False))"
    by (simp add: ps' throws_def ans inv)
  have w4: "provideCompletions env0 reg3 ''git '' 4 ''bash'' False False = Inl Rejected"
    using provider_failure_rejects_query[where env = env0 and reg = reg3 and sh = "''bash''"
        and pv = "''git ''" and cp = 4 and tok = False and trig = False, THEN conjunct1] w3
    by simp
  show ?thesis
    by (intro conjI w1 w2 w3 w4)
qed

section \<open>The path resolver\<close>

lemma resolveResources_eq:
  "resolveResources env cfg pv cp =
     (case cwd cfg of
        None \<Rightarrow> None
      | Some c \<Rightarrow>
          if \<not> orFalse (foldersRequested cfg) \<and> \<not> orFalse (filesRequested cfg) then None
          else
            (case listing env c of
               None \<Rightarrow> None
             | Some stats \<Rightarrow>
                 (case listing env (parentCwdOf env cfg c) of
                    None \<Rightarrow> None
                  | Some parentStats \<Rightarrow>
                      (let rc =
                             childCompletions env (orFalse (foldersRequested cfg))
                               (orFalse (filesRequested cfg)) c cp (lastWordOf pv cp) ''.'' stats
                             @ childCompletions env (orFalse (foldersRequested cfg))
                                 (orFalse (filesRequested cfg)) c cp (lastWordOf pv cp) ''..''
                                 parentStats
                       in if rc = [] then None else Some rc))))"
  by (simp add: resolveResources_def dirToPrefixMap_def listing_def parentCwdOf_def
      lastWordOf_def Let_def split: option.split)

lemma length_childCompletions:
  "length (childCompletions env fo fi c cp lw pfx stats)
     = length (filter (\<lambda>stat. childKind fo fi stat \<noteq> None) stats)"
  by (induction stats) (auto simp: Let_def split: option.split)

lemma listing_None:
  "listing env dir = None \<longleftrightarrow>
     resolve env dir = None \<or> (\<exists>fileStat. resolve env dir = Some fileStat \<and> children fileStat = None)"
  by (auto simp: listing_def split: option.splits)

text \<open>
  Claim C2 fails on the code: a structured batch without a resource request makes the
  callback return \<open>undefined\<close>, so its items are not part of the result. The query over
  a single provider that returns a list of one item and no resource request gives the
  empty array.
\<close>

theorem list_without_resource_request_dropped:
  "providerCompletions env sh pv cp tok
     (p\<lparr>shellTypes := None,
        provideCompletions_p :=
          (\<lambda>value cursorPosition token. CompletionList \<lparr>items = its, resourceRequestConfig = None\<rparr>)\<rparr>)
     = Inr None
   \<and> provideCompletions env0 regList ''x'' 1 ''bash'' False False = Inr (Some [])"
  by (simp add: providerCompletions_def provideCompletions_def candidates_def
      collectCompletions_def regList_def registerTerminalCompletionProvider_def env0_def
      constProvider_def)

lemma collectCompletions_contains:
  assumes "p \<in> set ps" and "\<not> list_ex (throws sh pv cp tok) ps"
  shows "\<exists>pre post. collectCompletions env ps sh pv cp tok
           = Inr (Some (pre @ contribution env sh pv cp tok p @ post))"
proof -
  obtain xs ys where ps: "ps = xs @ p # ys"
    using assms(1) by (auto dest: split_list)
  have "collectCompletions env ps sh pv cp tok
          = Inr (Some (concat (map (contribution env sh pv cp tok) xs)
                       @ contribution env sh pv cp tok p
                       @ concat (map (contribution env sh pv cp tok) ys)))"
    using assms(2) by (simp add: collectCompletions_eq ps)
  then show ?thesis by blast
qed

text \<open>
  Claim C8. When the file service gives no stat, or a stat without children, for the
  working directory or for its parent, \<open>_resolveResources\<close> returns \<open>undefined\<close>, also
  when the other directory has children. Every provider that is invoked and returns a
  batch with that resource request still contributes its own (annotated) items, and when
  no candidate fails they are part of the result of the query.
\<close>

theorem listing_failure_gives_no_resources:
  assumes "cwd cfg = Some c"
    and "listing env c = None \<or> listing env (parentCwdOf env cfg c) = None"
  shows "resolveResources env cfg pv cp = None
   \<and> (invoked sh p
        \<and> provideCompletions_p p pv cp tok
            = CompletionList \<lparr>items = its, resourceRequestConfig = Some cfg\<rparr> \<longrightarrow>
        providerCompletions env sh pv cp tok p
          = Inr (Some (map (annotate (devMode env) (providerId p))
                         (case its of None \<Rightarrow> [] | Some completionItems \<Rightarrow> completionItems)))
        \<and> contribution env sh pv cp tok p
            = map (annotate (devMode env) (providerId p))
                (case its of None \<Rightarrow> [] | Some completionItems \<Rightarrow> completionItems))
   \<and> (invoked sh p
        \<and> provideCompletions_p p pv cp tok
            = CompletionList \<lparr>items = its, resourceRequestConfig = Some cfg\<rparr>
        \<and> p \<in> set (policy env (candidates reg pv cp trig))
        \<and> \<not> list_ex (throws sh pv cp tok) (policy env (candidates reg pv cp trig)) \<longrightarrow>
        (\<exists>pre post. provideCompletions env reg pv cp sh tok trig
           = Inr (Some (pre
                        @ map (annotate (devMode env) (providerId p))
                            (case its of None \<Rightarrow> [] | Some completionItems \<Rightarrow> completionItems)
                        @ post))))
   \<and> (listing env dir = None \<longleftrightarrow>
        resolve env dir = None
        \<or> (\<exists>fileStat. resolve env dir = Some fileStat \<and> children fileStat = None))"
proof -
  let ?own = "map (annotate (devMode env) (providerId p))
                (case its of None \<Rightarrow> [] | Some completionItems \<Rightarrow> completionItems)"
  have none: "resolveResources env cfg pv cp = None"
    using assms by (auto simp: resolveResources_eq split: option.split)
  have own: "providerCompletions env sh pv cp tok p = Inr (Some ?own)"
    if "invoked sh p"
      and "provideCompletions_p p pv cp tok
             = CompletionList \<lparr>items = its, resourceRequestConfig = Some cfg\<rparr>"
    using providerCompletions_CompletionList[OF that, of env] none by simp
  have con: "contribution env sh pv cp tok p = ?own"
    if "invoked sh p"
      and "provideCompletions_p p pv cp tok
             = CompletionList \<lparr>items = its, resourceRequestConfig = Some cfg\<rparr>"
    using own[OF that] by (simp add: contribution_def)
  have prov: "invoked sh p
        \<and> provideCompletions_p p pv cp tok
            = CompletionList \<lparr>items = its, resourceRequestConfig = Some cfg\<rparr> \<longrightarrow>
        providerCompletions env sh pv cp tok p = Inr (Some ?own)
        \<and> contribution env sh pv cp tok p = ?own"
    using own con by blast
  have query: "invoked sh p
        \<and> provideCompletions_p p pv cp tok
            = CompletionList \<lparr>items = its, resourceRequestConfig = Some cfg\<rparr>
        \<and> p \<in> set (policy env (candidates reg pv cp trig))
        \<and> \<not> list_ex (throws sh pv cp tok) (policy env (candidates reg pv cp trig)) \<longrightarrow>
        (\<exists>pre post. provideCompletions env reg pv cp sh tok trig = Inr (Some (pre @ ?own @ post)))"
  proof (intro impI, elim conjE)
    assume i: "invoked sh p"
      and a: "provideCompletions_p p pv cp tok
                = CompletionList \<lparr>items = its, resourceRequestConfig = Some cfg\<rparr>"
      and m: "p \<in> set (policy env (candidates reg pv cp trig))"
      and t: "\<not> list_ex (throws sh pv cp tok) (policy env (candidates reg pv cp trig))"
    show "\<exists>pre post. provideCompletions env reg pv cp sh tok trig = Inr (Some (pre @ ?own @ post))"
      using collectCompletions_contains[OF m t, of env] con[OF i a]
      by (simp add: provideCompletions_policy)
  qed
  show ?thesis
    by (intro conjI none prov query listing_None)
qed

theorem listing_failure_gives_no_resources_witness:
  "cwd cfgHome = Some homeU
   \<and> map_option length (listing envHome homeU) = Some 2
   \<and> listing envHome (parentCwdOf envHome cfgHome homeU) = None
   \<and> resolveResources envHome cfgHome ''cd '' 3 = None
   \<and> shellTypes (stamp ''git'' [] gitProvider) = Some [''bash'', ''zsh'']
   \<and> providerCompletions envHome ''zsh'' ''cd '' 3 False (stamp ''git'' [] gitProvider)
       = Inr (Some [item ''status''])
   \<and> provideCompletions envHome regGit ''cd '' 3 ''zsh'' False False = Inr (Some [item ''status''])"
proof -
  have h1: "cwd cfgHome = Some homeU"
    by (simp add: cfgHome_def)
  have par: "parentCwdOf envHome cfgHome homeU = URI_from ''file'' ''/home''"
    by (simp add: parentCwdOf_def envHome_def cfgHome_def homeU_def URI_from_def split_def)
  have h2: "listing envHome (parentCwdOf envHome cfgHome homeU) = None"
    unfolding par by (simp add: listing_def envHome_def URI_from_def)
  have l1: "map_option length (listing envHome homeU) = Some 2"
    by (simp add: listing_def envHome_def homeU_def URI_from_def)
  note inst = listing_failure_gives_no_resources[OF h1 disjI2[OF h2], where pv = "''cd ''" and cp = 3
      and sh = "''zsh''" and tok = False and its = "Some [item ''status'']"
      and p = "stamp ''git'' [] gitProvider"]
  have r: "resolveResources envHome cfgHome ''cd '' 3 = None"
    using inst by blast
  have st: "shellTypes (stamp ''git'' [] gitProvider) = Some [''bash'', ''zsh'']"
    by (simp add: stamp_def gitProvider_def)
  have i: "invoked ''zsh'' (stamp ''git'' [] gitProvider)"
    by (simp add: invoked_def st)
  have a: "provideCompletions_p (stamp ''git'' [] gitProvider) ''cd '' 3 False
             = CompletionList \<lparr>items = Some [item ''status''], resourceRequestConfig = Some cfgHome\<rparr>"
    by (simp add: stamp_def gitProvider_def)
  have dv: "annotate (devMode envHome) (providerId (stamp ''git'' [] gitProvider)) (item ''status'')
              = item ''status''"
    by (simp add: envHome_def annotate_def)
  have pc: "providerCompletions envHome ''zsh'' ''cd '' 3 False (stamp ''git'' [] gitProvider)
       = Inr (Some [item ''status''])"
    using inst i a by (simp add: dv)
  have cs: "policy envHome (candidates regGit ''cd '' 3 False) = [stamp ''git'' [] gitProvider]"
    by (simp add: policy_def envHome_def candidates_def regGit_def
        registerTerminalCompletionProvider_def stamp_def)
  have q: "provideCompletions envHome regGit ''cd '' 3 ''zsh'' False False = Inr (Some [item ''status''])"
    using pc by (simp add: provideCompletions_policy cs collectCompletions_def)
  show ?thesis
    by (intro conjI h1 l1 h2 r st pc q)
qed

text \<open>
  The claim C3 as it is written fails: the working directory with the empty path is its
  own parent, and its one file is contributed twice, under \<open>.\<close> and under \<open>..\<close>.
\<close>

theorem parent_equals_cwd_counterexample:
  "parentCwdOf envRoot cfgRoot rootU = rootU
   \<and> resolveResources envRoot cfgRoot ''ls '' 3 =
       Some [\<lparr>label = ''./x'', detail = None, kind = Some File, isDirectory = Some False,
               isFile = Some True, replacementIndex = 3, replacementLength = 3\<rparr>,
             \<lparr>label = ''../x'', detail = None, kind = Some File, isDirectory = Some False,
               isFile = Some True, replacementIndex = 3, replacementLength = 4\<rparr>]"
proof -
  have par: "parentCwdOf envRoot cfgRoot rootU = rootU"
    by (simp add: parentCwdOf_def envRoot_def cfgRoot_def rootU_def URI_from_def split_def)
  have lw: "lastWordOf ''ls '' 3 = []"
    by (simp add: lastWordOf_def substring0_def split_def)
  have ls: "listing envRoot rootU = Some [FileStat (URI_from ''memfs'' ''/x'') False True None]"
    by (simp add: listing_def envRoot_def rootU_def URI_from_def)
  have cw: "cwd cfgRoot = Some rootU" "orFalse (foldersRequested cfgRoot)"
      "orFalse (filesRequested cfgRoot)"
    by (simp_all add: cfgRoot_def orFalse_def)
  have fp: "fsPath envRoot rootU = []" "fsPath envRoot (URI_from ''memfs'' ''/x'') = ''/x''"
    by (simp_all add: envRoot_def rootU_def URI_from_def)
  have res: "resolveResources envRoot cfgRoot ''ls '' 3 =
       Some [\<lparr>label = ''./x'', detail = None, kind = Some File, isDirectory = Some False,
               isFile = Some True, replacementIndex = 3, replacementLength = 3\<rparr>,
             \<lparr>label = ''../x'', detail = None, kind = Some File, isDirectory = Some False,
               isFile = Some True, replacementIndex = 3, replacementLength = 4\<rparr>]"
    by (simp add: resolveResources_eq cw par ls lw fp childKind_def Let_def)
  show ?thesis
    by (intro conjI par res)
qed

text \<open>
  Claim C3, as amended. The map from directory to prefix is keyed by the identity of the
  \<open>URI\<close> objects, and \<open>cwd\<close> and \<open>parentCwd\<close> are two objects, so it always has its two
  entries. When the parent directory equals the working directory, that directory is
  listed twice and each of its children of a requested kind is contributed twice: once
  with the prefix \<open>.\<close> and once with the prefix \<open>..\<close>.
\<close>

theorem parent_equal_cwd_listed_twice:
  assumes "cwd cfg = Some c"
    and "parentCwdOf env cfg c = c"
    and "orFalse (foldersRequested cfg) \<or> orFalse (filesRequested cfg)"
    and "listing env c = Some stats"
  shows "map fst (dirToPrefixMap c (parentCwdOf env cfg c)) = [0, 1]
   \<and> map snd (dirToPrefixMap c (parentCwdOf env cfg c)) = [(c, ''.''), (c, ''..'')]
   \<and> resolveResources env cfg pv cp =
       (let rc =
              childCompletions env (orFalse (foldersRequested cfg)) (orFalse (filesRequested cfg))
                c cp (lastWordOf pv cp) ''.'' stats
              @ childCompletions env (orFalse (foldersRequested cfg)) (orFalse (filesRequested cfg))
                  c cp (lastWordOf pv cp) ''..'' stats
        in if rc = [] then None else Some rc)
   \<and> length
        (childCompletions env (orFalse (foldersRequested cfg)) (orFalse (filesRequested cfg))
           c cp (lastWordOf pv cp) ''.'' stats
         @ childCompletions env (orFalse (foldersRequested cfg)) (orFalse (filesRequested cfg))
             c cp (lastWordOf pv cp) ''..'' stats)
      = 2 * length (filter (\<lambda>stat. childKind (orFalse (foldersRequested cfg))
                                     (orFalse (filesRequested cfg)) stat \<noteq> None) stats)"
proof -
  have keys: "map fst (dirToPrefixMap c (parentCwdOf env cfg c)) = [0, 1]"
    by (simp add: dirToPrefixMap_def)
  have vals: "map snd (dirToPrefixMap c (parentCwdOf env cfg c)) = [(c, ''.''), (c, ''..'')]"
    by (simp add: dirToPrefixMap_def assms(2))
  have res: "resolveResources env cfg pv cp =
       (let rc =
              childCompletions env (orFalse (foldersRequested cfg)) (orFalse (filesRequested cfg))
                c cp (lastWordOf pv cp) ''.'' stats
              @ childCompletions env (orFalse (foldersRequested cfg)) (orFalse (filesRequested cfg))
                  c cp (lastWordOf pv cp) ''..'' stats
        in if rc = [] then None else Some rc)"
    using assms by (auto simp: resolveResources_eq)
  have len: "length
        (childCompletions env (orFalse (foldersRequested cfg)) (orFalse (filesRequested cfg))
           c cp (lastWordOf pv cp) ''.'' stats
         @ childCompletions env (orFalse (foldersRequested cfg)) (orFalse (filesRequested cfg))
             c cp (lastWordOf pv cp) ''..'' stats)
      = 2 * length (filter (\<lambda>stat. childKind (orFalse (foldersRequested cfg))
                                     (orFalse (filesRequested cfg)) stat \<noteq> None) stats)"
    by (simp add: length_childCompletions)
  show ?thesis
    by (intro conjI keys vals res len)
qed

theorem parent_equal_cwd_listed_twice_witness:
  "cwd cfgRoot = Some rootU
   \<and> parentCwdOf envRoot cfgRoot rootU = rootU
   \<and> listing envRoot rootU = Some [FileStat (URI_from ''memfs'' ''/x'') False True None]
   \<and> map_option (map label) (resolveResources envRoot cfgRoot ''ls '' 3) = Some [''./x'', ''../x'']"
proof -
  have par: "parentCwdOf envRoot cfgRoot rootU = rootU"
    by (simp add: parentCwdOf_def envRoot_def cfgRoot_def rootU_def URI_from_def split_def)
  have lw: "lastWordOf ''ls '' 3 = []"
    by (simp add: lastWordOf_def substring0_def split_def)
  have ls: "listing envRoot rootU = Some [FileStat (URI_from ''memfs'' ''/x'') False True None]"
    by (simp add: listing_def envRoot_def rootU_def URI_from_def)
  have cw: "cwd cfgRoot = Some rootU"
    by (simp add: cfgRoot_def)
  have rq: "orFalse (foldersRequested cfgRoot) \<or> orFalse (filesRequested cfgRoot)"
    by (simp add: cfgRoot_def orFalse_def)
  have fp: "fsPath envRoot rootU = []" "fsPath envRoot (URI_from ''memfs'' ''/x'') = ''/x''"
    by (simp_all add: envRoot_def rootU_def URI_from_def)
  have fl: "orFalse (foldersRequested cfgRoot)" "orFalse (filesRequested cfgRoot)"
    by (simp_all add: cfgRoot_def orFalse_def)
  have res: "map_option (map label) (resolveResources envRoot cfgRoot ''ls '' 3) = Some [''./x'', ''../x'']"
    using parent_equal_cwd_listed_twice[OF cw par rq ls, where pv = "''ls ''" and cp = 3]
    by (simp add: lw fp fl childKind_def Let_def)
  show ?thesis
    by (intro conjI cw par ls res)
qed

section \<open>Determinism of the query\<close>

subsection \<open>The slots of \<open>Promise.all\<close>\<close>









subsection \<open>The objects after the callbacks have resumed\<close>

















subsection \<open>The objects read by the caller and the values of the engine\<close>








end
